theory Spec2Isabelle
  imports Complex_Main "HOL-Library.Log_Nat"
begin

section \<open>Characters and the C library classification functions\<close>

text \<open>
  The program works on \<open>std::string\<close>, a sequence of 8-bit \<open>char\<close>; it is modelled as
  \<^typ>\<open>string\<close>. The program never calls \<open>setlocale\<close>, so \<open>tolower\<close>, \<open>toupper\<close>,
  \<open>isalpha\<close>, \<open>ispunct\<close> and the whitespace test of \<open>operator>>\<close> are those of the "C"
  locale: only the ASCII letters change case, and bytes above 127 belong to no class.

  The counters of type \<open>int\<close> are modelled as unbounded integers (\<^typ>\<open>int\<close>). Each of
  them counts characters, words or sentences of the text at hand, so none exceeds the length
  of the text and none overflows on a text shorter than \<open>2^31\<close> characters.
\<close>

definition upper_letters :: string where
  "upper_letters = ''ABCDEFGHIJKLMNOPQRSTUVWXYZ''"

definition lower_letters :: string where
  "lower_letters = ''abcdefghijklmnopqrstuvwxyz''"

definition tolower :: "char \<Rightarrow> char" where
  "tolower c = (case map_of (zip upper_letters lower_letters) c of Some d \<Rightarrow> d | None \<Rightarrow> c)"

definition toupper :: "char \<Rightarrow> char" where
  "toupper c = (case map_of (zip lower_letters upper_letters) c of Some d \<Rightarrow> d | None \<Rightarrow> c)"

definition isalpha :: "char \<Rightarrow> bool" where
  "isalpha c = (c \<in> set (upper_letters @ lower_letters))"

text \<open>Space, \<open>\t\<close>, \<open>\n\<close>, \<open>\v\<close>, \<open>\f\<close>, \<open>\r\<close>.\<close>

definition isspace :: "char \<Rightarrow> bool" where
  "isspace c = (c \<in> set [CHR '' '', CHR 0x09, CHR 0x0A, CHR 0x0B, CHR 0x0C, CHR 0x0D])"

text \<open>The printable ASCII characters that are neither alphanumeric nor the space:
  codes 33-47, 58-64, 91-96 and 123-126.\<close>

definition ispunct :: "char \<Rightarrow> bool" where
  "ispunct c = (c \<in> set ([CHR ''!'', CHR 0x22, CHR ''#'', CHR ''$'', CHR ''%'', CHR ''&'', CHR 0x27,
       CHR ''('', CHR '')'', CHR ''*'', CHR ''+'', CHR '','', CHR ''-'', CHR ''.'', CHR ''/'',
       CHR '':'', CHR '';'', CHR ''<'', CHR ''='', CHR ''>'', CHR ''?'', CHR ''@'',
       CHR ''['', CHR 0x5C, CHR '']'', CHR ''^'', CHR ''_'', CHR 0x60,
       CHR ''{'', CHR ''|'', CHR ''}'', CHR ''~'']))"

text \<open>\<open>std::transform(word.begin(), word.end(), word.begin(), ::tolower)\<close>\<close>

definition lowercase :: "string \<Rightarrow> string" where
  "lowercase w = map tolower w"

section \<open>Reading whitespace-separated tokens from a string stream\<close>

text \<open>
  \<open>ss >> tok\<close> on a \<open>std::istringstream\<close>: skip leading whitespace, then take characters up to
  the next whitespace or the end. The extraction fails (the loop \<open>while (ss >> tok)\<close> ends)
  when nothing but whitespace is left. The stream is its unread rest, passed explicitly.
\<close>

definition stream_extract :: "string \<Rightarrow> (string \<times> string) option" where
  "stream_extract ss =
     (let s = dropWhile isspace ss
      in if s = [] then None
         else Some (takeWhile (\<lambda>c. \<not> isspace c) s, dropWhile (\<lambda>c. \<not> isspace c) s))"

lemma stream_extract_shorter: "stream_extract ss = Some (tok, rest) \<Longrightarrow> length rest < length ss"
proof -
  assume a: "stream_extract ss = Some (tok, rest)"
  let ?s = "dropWhile isspace ss"
  from a have ne: "?s \<noteq> []" and r: "rest = dropWhile (\<lambda>c. \<not> isspace c) ?s"
    by (auto simp: stream_extract_def Let_def split: if_splits)
  from ne have "\<not> isspace (hd ?s)" by (rule hd_dropWhile)
  with ne have "dropWhile (\<lambda>c. \<not> isspace c) ?s = dropWhile (\<lambda>c. \<not> isspace c) (tl ?s)"
    by (cases ?s) auto
  then have "rest = dropWhile (\<lambda>c. \<not> isspace c) (tl ?s)"
    using r by simp
  then have "length rest \<le> length (tl ?s)"
    using length_dropWhile_le [of "\<lambda>c. \<not> isspace c" "tl ?s"] by simp
  also have "\<dots> < length ?s" using ne by (cases ?s) auto
  also have "\<dots> \<le> length ss" by (rule length_dropWhile_le)
  finally show ?thesis .
qed

text \<open>\<open>while (ss >> tok) words.push_back(tok);\<close>\<close>

function read_words :: "string \<Rightarrow> string list" where
  "read_words ss = (case stream_extract ss of None \<Rightarrow> [] | Some (tok, rest) \<Rightarrow> tok # read_words rest)"
  by pat_completeness auto
termination
  by (relation "measure length") (auto simp: stream_extract_shorter)

declare read_words.simps [simp del]

section \<open>TextAnalyzer\<close>

subsection \<open>countSyllables\<close>

definition vowels :: string where
  "vowels = ''aeiouy''"

definition isVowel :: "char \<Rightarrow> bool" where
  "isVowel c = (c \<in> set vowels)"

text \<open>The loop \<open>for (char c : word)\<close> over the state \<open>(n, lastWasVowel)\<close>.\<close>

fun syllable_scan :: "string \<Rightarrow> int \<times> bool \<Rightarrow> int \<times> bool" where
  "syllable_scan [] st = st"
| "syllable_scan (c # cs) (n, lastWasVowel) =
     (let v = isVowel c
      in syllable_scan cs (if v \<and> \<not> lastWasVowel then n + 1 else n, v))"

text \<open>
  \<open>n\<close> is a C++ \<open>int\<close>; it is modelled as an unbounded \<^typ>\<open>int\<close>. The count never exceeds
  the length of the word (lemma \<open>syllable_scan_bound\<close>), so it stays within 32 bits for
  every word shorter than \<open>2^31\<close> characters.
\<close>

definition countSyllables :: "string \<Rightarrow> int" where
  "countSyllables rawWord =
     (let word = lowercase rawWord;
          n = fst (syllable_scan word (0, False));
          n' = (if length word > 2 \<and> last word = CHR ''e'' then n - 1 else n)
      in max 1 n')"

subsection \<open>Sentence segmentation\<close>

definition isTerminator :: "char \<Rightarrow> bool" where
  "isTerminator c = (c = CHR ''.'' \<or> c = CHR ''!'' \<or> c = CHR ''?'')"

text \<open>The first loop of \<open>TextAnalyzer::analyze\<close>, over the state \<open>(sentences, cur)\<close>.\<close>

fun analyze_scan :: "string \<Rightarrow> string list \<times> string \<Rightarrow> string list \<times> string" where
  "analyze_scan [] st = st"
| "analyze_scan (c # cs) (sentences, cur) =
     (let cur' = cur @ [c]
      in if isTerminator c then analyze_scan cs (sentences @ [cur'], [])
         else analyze_scan cs (sentences, cur'))"

text \<open>The value of \<open>sentences\<close> after the loop; what is left in \<open>cur\<close> is not used again.\<close>

definition analyze_sentences :: "string \<Rightarrow> string list" where
  "analyze_sentences text = fst (analyze_scan text ([], []))"

subsection \<open>analyze\<close>

text \<open>
  The type \<open>double\<close> is IEEE binary64. A finite double is modelled by the real number it
  stands for, and an operation by the exact operation on reals followed by the rounding of
  binary64, to the nearest double, a tie going to the double with the even significand.

  \<open>exponent2 x\<close> is the binary exponent \<open>e\<close> of \<open>x\<close>, with \<open>2^e \<le> |x| < 2^(e+1)\<close> (lemmas
  \<open>exponent2_lower\<close> and \<open>exponent2_upper\<close>); the doubles from \<open>2^e\<close> to \<open>2^(e+1)\<close> are the
  multiples of \<open>2^(e-52)\<close>, and \<open>round_binary64 x\<close> is the nearest of them.

  The limits of the exponent of binary64 (from -1022 to 1023) are left out: the values that
  \<open>analyze\<close> computes are quotients of counters, their products with constants below 256
  and differences of these, all far inside the limits for every text shorter than \<open>2^63\<close>
  characters. Each operation is rounded on its own (no fused multiply-add).
\<close>

type_synonym double = real

definition pow2 :: "int \<Rightarrow> real" where
  "pow2 k = (if k \<ge> 0 then 2 ^ nat k else 1 / 2 ^ nat (- k))"

definition exponent2 :: "real \<Rightarrow> int" where
  "exponent2 x =
     (if \<bar>x\<bar> \<ge> 1 then bitlen \<lfloor>\<bar>x\<bar>\<rfloor> - 1 else - bitlen (\<lceil>1 / \<bar>x\<bar>\<rceil> - 1))"

definition round_half_even :: "real \<Rightarrow> int" where
  "round_half_even y =
     (let n = \<lfloor>y\<rfloor>; d = y - of_int n
      in if d < 1 / 2 then n else if d > 1 / 2 then n + 1 else if even n then n else n + 1)"

definition round_binary64 :: "real \<Rightarrow> double" where
  "round_binary64 x =
     (if x = 0 then 0
      else let q = pow2 (exponent2 x - 52) in of_int (round_half_even (x / q)) * q)"

text \<open>The product and the difference of two doubles.\<close>

definition dmul :: "double \<Rightarrow> double \<Rightarrow> double" where
  "dmul a b = round_binary64 (a * b)"

definition dsub :: "double \<Rightarrow> double \<Rightarrow> double" where
  "dsub a b = round_binary64 (a - b)"

record Metrics =
  avgWordsPerSentence :: double
  avgSyllablesPerWord :: double
  fleschScore :: double
  cefrEstimate :: int

text \<open>
  Modelled from the spec: the declaration of \<open>struct Metrics\<close> (the header) is not among the
  sources, so the value of a default-constructed \<open>Metrics m;\<close> is taken from the
  specification: a zero-valued record whose level is 0, "undetermined".
\<close>

definition Metrics_default :: Metrics where
  "Metrics_default =
     \<lparr>avgWordsPerSentence = 0, avgSyllablesPerWord = 0, fleschScore = 0, cefrEstimate = 0\<rparr>"

text \<open>
  The literals \<open>206.835\<close>, \<open>1.015\<close> and \<open>84.6\<close> of the source are the doubles nearest to these
  decimal numbers.
\<close>

definition calcFlesch :: "double \<Rightarrow> double \<Rightarrow> double" where
  "calcFlesch wps spw =
     dsub (dsub (round_binary64 206.835) (dmul (round_binary64 1.015) wps))
       (dmul (round_binary64 84.6) spw)"

text \<open>
  A division whose second operand is zero has no defined result in C++; the model makes it
  a fault, so that a run that divides by zero is visible in the result.
\<close>

datatype fault = DivisionByZero

definition fdiv :: "double \<Rightarrow> double \<Rightarrow> fault + double" where
  "fdiv a b = (if b = 0 then Inl DivisionByZero else Inr (round_binary64 (a / b)))"

text \<open>The inner loop \<open>while (ss >> tok)\<close> of one sentence, over \<open>(wc, totalSyllables)\<close>.\<close>

fun count_tokens :: "string list \<Rightarrow> int \<times> int \<Rightarrow> int \<times> int" where
  "count_tokens [] st = st"
| "count_tokens (tok # toks) (wc, totalSyllables) =
     (let tok' = filter isalpha tok
      in if tok' = [] then count_tokens toks (wc, totalSyllables)
         else count_tokens toks (wc + 1, totalSyllables + countSyllables tok'))"

text \<open>The loop over the sentences, over \<open>(totalWords, totalSyllables)\<close>.\<close>

fun count_sentences :: "string list \<Rightarrow> int \<times> int \<Rightarrow> int \<times> int" where
  "count_sentences [] st = st"
| "count_sentences (sent # sents) (totalWords, totalSyllables) =
     (case count_tokens (read_words sent) (0, totalSyllables) of
        (wc, totalSyllables') \<Rightarrow> count_sentences sents (totalWords + wc, totalSyllables'))"

text \<open>The chain of cutoffs at the end of \<open>analyze\<close>. The cutoffs are integers, which are
  doubles, and doubles compare as the reals they stand for.\<close>

definition estimate_level :: "double \<Rightarrow> int" where
  "estimate_level f =
     (if f \<ge> 80 then 1
      else if f \<ge> 65 then 2
      else if f \<ge> 50 then 3
      else if f \<ge> 40 then 4
      else if f \<ge> 25 then 5
      else 6)"

text \<open>
  The casts \<open>(double)totalWords\<close> and \<open>(double)totalSyllables\<close> and the conversion of
  \<open>sentences.size()\<close> to \<open>double\<close> round like every other operation (they are exact below
  \<open>2^53\<close>).
\<close>

definition analyze :: "string \<Rightarrow> fault + Metrics" where
  "analyze text =
     (let m = Metrics_default;
          sentences = analyze_sentences text
      in if sentences = [] then Inr m
         else
           case count_sentences sentences (0, 0) of (totalWords, totalSyllables) \<Rightarrow>
           case fdiv (round_binary64 (of_int totalWords))
                  (round_binary64 (of_nat (length sentences))) of
             Inl e \<Rightarrow> Inl e
           | Inr wps \<Rightarrow>
           case (if totalWords > 0
                 then fdiv (round_binary64 (of_int totalSyllables)) (round_binary64 (of_int totalWords))
                 else Inr 0) of
             Inl e \<Rightarrow> Inl e
           | Inr spw \<Rightarrow>
               let m1 = m\<lparr>avgWordsPerSentence := wps, avgSyllablesPerWord := spw\<rparr>;
                   m2 = m1\<lparr>fleschScore := calcFlesch (avgWordsPerSentence m1) (avgSyllablesPerWord m1)\<rparr>;
                   f = fleschScore m2
               in Inr (m2\<lparr>cefrEstimate := estimate_level f\<rparr>))"

section \<open>Vocabulary\<close>

text \<open>
  Modelled from the spec: the declaration of the enumeration \<open>CEFRLevel\<close> (the header) is
  not among the sources. The specification gives it two values, beginner and elementary;
  the code names them \<open>CEFRLevel::A1\<close> and \<open>CEFRLevel::A2\<close>.
\<close>

datatype CEFRLevel = A1 | A2

text \<open>
  The class \<open>Vocabulary\<close> with its members \<open>lvl_\<close> and \<open>wordMap_\<close>. The map is built from
  an initializer list (the first entry of a key is the one kept, as with \<^const>\<open>map_of\<close>)
  and, for A2, by assignments \<open>wordMap_[k] = v\<close>.
\<close>

record Vocabulary =
  vocab_lvl :: CEFRLevel
  wordMap :: "string \<rightharpoonup> string"

definition loadA1 :: "string \<rightharpoonup> string" where
  "loadA1 = map_of
     [(''utilize'', ''use''),
      (''commence'', ''start''),
      (''terminate'', ''end''),
      (''residence'', ''home''),
      (''purchase'', ''buy''),
      (''inquire'', ''ask''),
      (''observe'', ''see''),
      (''obtain'', ''get''),
      (''assistance'', ''help''),
      (''demonstrate'', ''show''),
      (''approximately'', ''about''),
      (''sufficient'', ''enough''),
      (''however'', ''but''),
      (''therefore'', ''so''),
      (''additionally'', ''also''),
      (''attempt'', ''try''),
      (''require'', ''need'')]"

definition loadA2 :: "string \<rightharpoonup> string" where
  "loadA2 = loadA1
     (''facilitate'' \<mapsto> ''help'',
      ''construct'' \<mapsto> ''build'',
      ''complete'' \<mapsto> ''finish'',
      ''numerous'' \<mapsto> ''many'',
      ''previously'' \<mapsto> ''before'')"

text \<open>The constructor \<open>Vocabulary::Vocabulary(CEFRLevel lvl)\<close>.\<close>

definition Vocabulary_new :: "CEFRLevel \<Rightarrow> Vocabulary" where
  "Vocabulary_new lvl = \<lparr>vocab_lvl = lvl, wordMap = (if lvl = A1 then loadA1 else loadA2)\<rparr>"

definition isSimple :: "Vocabulary \<Rightarrow> string \<Rightarrow> bool" where
  "isSimple v word = (let lower = lowercase word in wordMap v lower = None)"

definition getSimplerWord :: "Vocabulary \<Rightarrow> string \<Rightarrow> string" where
  "getSimplerWord v word =
     (let lower = lowercase word
      in case wordMap v lower of Some simple \<Rightarrow> simple | None \<Rightarrow> word)"

section \<open>SentenceRewriter\<close>

record SentenceRewriter =
  rewriter_lvl :: CEFRLevel
  vocab :: Vocabulary

definition SentenceRewriter_new :: "CEFRLevel \<Rightarrow> Vocabulary \<Rightarrow> SentenceRewriter" where
  "SentenceRewriter_new lvl v = \<lparr>rewriter_lvl = lvl, vocab = v\<rparr>"

subsection \<open>swapWords\<close>

text \<open>
  The loop \<open>while (!tok.empty() && std::ispunct(tok.back()))\<close> over \<open>(tok, punct)\<close>: the
  trailing punctuation moves from the token to the front of \<open>punct\<close>.
\<close>

function strip_punct :: "string \<Rightarrow> string \<Rightarrow> string \<times> string" where
  "strip_punct tok punct =
     (if tok \<noteq> [] \<and> ispunct (last tok) then strip_punct (butlast tok) (last tok # punct)
      else (tok, punct))"
  by pat_completeness auto
termination
  by (relation "measure (\<lambda>(tok, punct). length tok)") (auto simp: less_Suc_eq_le [symmetric])

declare strip_punct.simps [simp del]

text \<open>The loop \<open>while (ss >> tok)\<close> of \<open>swapWords\<close>, over the tokens read and \<open>out\<close>.\<close>

fun swap_loop :: "Vocabulary \<Rightarrow> string list \<Rightarrow> string \<Rightarrow> string" where
  "swap_loop v [] out = out"
| "swap_loop v (tok # toks) out =
     (case strip_punct tok [] of
        (tok', punct) \<Rightarrow> swap_loop v toks (out @ getSimplerWord v tok' @ punct @ '' ''))"

definition swapWords :: "SentenceRewriter \<Rightarrow> string \<Rightarrow> string" where
  "swapWords r s =
     (let out = swap_loop (vocab r) (read_words s) []
      in if out \<noteq> [] then butlast out else out)"

subsection \<open>trySplit\<close>

definition isConjunction :: "string \<Rightarrow> bool" where
  "isConjunction lw = (lw = ''and'' \<or> lw = ''but'' \<or> lw = ''because'')"

text \<open>The loop \<open>for (auto& w : words)\<close> over the state \<open>(chunks, chunk, count)\<close>.\<close>

fun split_loop :: "int \<Rightarrow> string list \<Rightarrow> string list \<times> string \<times> int \<Rightarrow> string list \<times> string \<times> int" where
  "split_loop limit [] st = st"
| "split_loop limit (w # ws) (chunks, chunk, count) =
     (let chunk' = chunk @ w @ '' '';
          count' = count + 1;
          lw = lowercase w
      in if isConjunction lw \<and> count' \<ge> limit div 2
         then split_loop limit ws (chunks @ [chunk'], [], 0)
         else split_loop limit ws (chunks, chunk', count'))"

definition split_limit :: "CEFRLevel \<Rightarrow> int" where
  "split_limit lvl = (if lvl = A1 then 10 else 15)"

definition trySplit :: "SentenceRewriter \<Rightarrow> string \<Rightarrow> string list" where
  "trySplit r s =
     (let limit = split_limit (rewriter_lvl r);
          words = read_words s
      in if int (length words) \<le> limit then [s]
         else case split_loop limit words ([], [], 0) of
                (chunks, chunk, count) \<Rightarrow> if chunk \<noteq> [] then chunks @ [chunk] else chunks)"

subsection \<open>stripParens, fixPassive, rewrite\<close>

text \<open>
  \<open>std::regex_replace(s, std::regex(R"(\([^)]*\))"), "")\<close>: every match is removed, the matches
  found from left to right without overlap. A match starts at an opening parenthesis that has
  a closing one somewhere after it and ends at the first closing parenthesis after it
  (\<open>[^)]\<close> matches every character but the closing parenthesis).
\<close>

function remove_paren_spans :: "string \<Rightarrow> string" where
  "remove_paren_spans [] = []"
| "remove_paren_spans (c # cs) =
     (if c = CHR ''('' \<and> CHR '')'' \<in> set cs
      then remove_paren_spans (tl (dropWhile (\<lambda>d. d \<noteq> CHR '')'') cs))
      else c # remove_paren_spans cs)"
  by pat_completeness auto
termination
proof (relation "measure length")
  show "wf (measure length)" by simp
next
  fix c :: char and cs :: string
  have "length (tl (dropWhile (\<lambda>d. d \<noteq> CHR '')'') cs)) \<le> length (dropWhile (\<lambda>d. d \<noteq> CHR '')'') cs)"
    by simp
  also have "\<dots> \<le> length cs" by (rule length_dropWhile_le)
  finally show "(tl (dropWhile (\<lambda>d. d \<noteq> CHR '')'') cs), c # cs) \<in> measure length" by simp
next
  fix c :: char and cs :: string
  show "(cs, c # cs) \<in> measure length" by simp
qed

definition stripParens :: "SentenceRewriter \<Rightarrow> string \<Rightarrow> string" where
  "stripParens r s = (if rewriter_lvl r \<noteq> A1 then s else remove_paren_spans s)"

definition fixPassive :: "SentenceRewriter \<Rightarrow> string \<Rightarrow> string" where
  "fixPassive r s = s"

definition rewrite :: "SentenceRewriter \<Rightarrow> string \<Rightarrow> string list" where
  "rewrite r sentence =
     (let s = stripParens r sentence;
          s = swapWords r s;
          s = fixPassive r s
      in trySplit r s)"

section \<open>Simplifier\<close>

text \<open>
  The class \<open>Simplifier\<close> with its members \<open>lvl_\<close>, \<open>vocab_\<close> and \<open>rewriter_\<close>. The progress
  callback \<open>progressFn_\<close> is only notified; it has no part in the article that \<open>run\<close>
  returns and is left out of the model.
\<close>

record Simplifier =
  simplifier_lvl :: CEFRLevel
  simplifier_vocab :: Vocabulary
  rewriter :: SentenceRewriter

definition Simplifier_new :: "CEFRLevel \<Rightarrow> Simplifier" where
  "Simplifier_new lvl =
     \<lparr>simplifier_lvl = lvl,
      simplifier_vocab = Vocabulary_new lvl,
      rewriter = SentenceRewriter_new lvl (Vocabulary_new lvl)\<rparr>"

record SimplifiedArticle =
  original :: string
  simplified :: string
  level :: CEFRLevel

subsection \<open>splitSentences\<close>

text \<open>The loop of \<open>Simplifier::splitSentences\<close>, over the state \<open>(out, cur)\<close>.\<close>

fun split_scan :: "string \<Rightarrow> string list \<times> string \<Rightarrow> string list \<times> string" where
  "split_scan [] st = st"
| "split_scan (c # cs) (out, cur) =
     (let cur' = cur @ [c]
      in if isTerminator c \<and> cur' \<noteq> [] then split_scan cs (out @ [cur'], [])
         else split_scan cs (out, cur'))"

definition splitSentences :: "string \<Rightarrow> string list" where
  "splitSentences text =
     (case split_scan text ([], []) of (out, cur) \<Rightarrow> if cur \<noteq> [] then out @ [cur] else out)"

subsection \<open>rejoin\<close>

text \<open>\<open>s.find_first_not_of(chars)\<close>: the first position holding a character outside \<open>chars\<close>;
  \<open>None\<close> stands for \<open>npos\<close>.\<close>

fun find_first_not_of :: "string \<Rightarrow> string \<Rightarrow> nat option" where
  "find_first_not_of [] chars = None"
| "find_first_not_of (c # cs) chars =
     (if c \<in> set chars then map_option Suc (find_first_not_of cs chars) else Some 0)"

text \<open>One turn of the loop \<open>for (auto& p : parts)\<close>: \<open>out\<close> after the part \<open>p\<close>.\<close>

definition rejoin_part :: "string \<Rightarrow> string \<Rightarrow> string" where
  "rejoin_part out p =
     (let s = (case find_first_not_of p [CHR '' '', CHR 0x09, CHR 0x0A] of
                 Some start \<Rightarrow> drop start p
               | None \<Rightarrow> p)
      in if s = [] then out
         else
           let s = toupper (hd s) # tl s;
               s = (if last s \<noteq> CHR ''.'' \<and> last s \<noteq> CHR ''!'' \<and> last s \<noteq> CHR ''?''
                    then s @ ''.'' else s)
           in out @ s @ '' '')"

definition rejoin :: "string list \<Rightarrow> string" where
  "rejoin parts = foldl rejoin_part [] parts"

subsection \<open>run\<close>

text \<open>The loop over the sentences appends the parts of each rewritten sentence to \<open>result\<close>.\<close>

definition run :: "Simplifier \<Rightarrow> string \<Rightarrow> SimplifiedArticle" where
  "run sim text =
     (let sentences = splitSentences text;
          result = concat (map (rewrite (rewriter sim)) sentences)
      in \<lparr>original = text, simplified = rejoin result, level = simplifier_lvl sim\<rparr>)"

section \<open>Notions used in the statements\<close>

text \<open>
  The specification's reading of the count: the number of positions of the word that hold a
  vowel and are not immediately preceded by a vowel.
\<close>

definition vowel_group_starts :: "string \<Rightarrow> nat" where
  "vowel_group_starts w =
     length (filter (\<lambda>i. isVowel (w ! i) \<and> (i = 0 \<or> \<not> isVowel (w ! (i - 1)))) [0..<length w])"

definition syllables_spec :: "string \<Rightarrow> int" where
  "syllables_spec w =
     (let lw = lowercase w
      in max 1 (int (vowel_group_starts lw) - (if length lw > 2 \<and> last lw = CHR ''e'' then 1 else 0)))"

text \<open>The same count with the vowel flag of the preceding character made a parameter.\<close>

definition starts_after :: "bool \<Rightarrow> string \<Rightarrow> nat" where
  "starts_after p w =
     length (filter (\<lambda>i. isVowel (w ! i) \<and> (if i = 0 then \<not> p else \<not> isVowel (w ! (i - 1))))
       [0..<length w])"

text \<open>The part of a text after its last terminator (the whole text when it has none).\<close>

definition trailing_fragment :: "string \<Rightarrow> string" where
  "trailing_fragment text = rev (takeWhile (\<lambda>c. \<not> isTerminator c) (rev text))"

text \<open>A closed sentence: it ends in a terminator and holds no other.\<close>

definition closed_sentence :: "string \<Rightarrow> bool" where
  "closed_sentence s = (s \<noteq> [] \<and> isTerminator (last s) \<and> list_all (\<lambda>c. \<not> isTerminator c) (butlast s))"

text \<open>A token: not empty and free of whitespace.\<close>

definition word_ok :: "string \<Rightarrow> bool" where
  "word_ok w = (w \<noteq> [] \<and> list_all (\<lambda>c. \<not> isspace c) w)"

text \<open>The words of a list, each followed by one space, as \<open>trySplit\<close> builds a chunk.\<close>

definition spaced :: "string list \<Rightarrow> string" where
  "spaced ws = concat (map (\<lambda>w. w @ '' '') ws)"

text \<open>The words of a list with one space between neighbours.\<close>

fun join_words :: "string list \<Rightarrow> string" where
  "join_words [] = []"
| "join_words [w] = w"
| "join_words (w # ws) = w @ '' '' @ join_words ws"

text \<open>
  The loop on the level of words: the chunks closed so far and the open chunk, each as the
  list of its words.
\<close>

fun group_loop :: "int \<Rightarrow> string list \<Rightarrow> string list list \<times> string list \<Rightarrow> string list list \<times> string list" where
  "group_loop limit [] st = st"
| "group_loop limit (w # ws) (gs, g) =
     (if isConjunction (lowercase w) \<and> int (length g) + 1 \<ge> limit div 2
      then group_loop limit ws (gs @ [g @ [w]], [])
      else group_loop limit ws (gs, g @ [w]))"

text \<open>
  A word closes a chunk when it is a conjunction and the chunk, this word counted, has at
  least \<open>limit div 2\<close> words. An open chunk holds no word that closes it at its position; a
  closed chunk is an open chunk followed by the word that closes it.
\<close>

definition closes :: "int \<Rightarrow> nat \<Rightarrow> string \<Rightarrow> bool" where
  "closes limit n w = (isConjunction (lowercase w) \<and> int n + 1 \<ge> limit div 2)"

definition open_chunk :: "int \<Rightarrow> string list \<Rightarrow> bool" where
  "open_chunk limit g = list_all (\<lambda>(n, w). \<not> closes limit n w) (enumerate 0 g)"

definition closed_chunk :: "int \<Rightarrow> string list \<Rightarrow> bool" where
  "closed_chunk limit g =
     (g \<noteq> [] \<and> open_chunk limit (butlast g) \<and> closes limit (length g - 1) (last g))"

text \<open>A word that \<open>swapWords\<close> leaves alone: without its trailing punctuation and in lower
  case it is no key of the table.\<close>

definition plain_word :: "Vocabulary \<Rightarrow> string \<Rightarrow> bool" where
  "plain_word v tok = (wordMap v (lowercase (fst (strip_punct tok []))) = None)"

text \<open>The characters that \<open>rejoin\<close> skips at the front of a part: space, tab, newline.\<close>

definition blank :: "char \<Rightarrow> bool" where
  "blank c = (c \<in> set [CHR '' '', CHR 0x09, CHR 0x0A])"

text \<open>What \<open>rejoin\<close> keeps of a part before it looks at it: the part from its first character
  that is no space, tab or newline on, or the whole part when it has no such character.\<close>

definition trimmed :: "string \<Rightarrow> string" where
  "trimmed p = (if dropWhile blank p = [] then p else dropWhile blank p)"

text \<open>
  A sentence whose words are separated by single spaces, after leading spaces, tabs and
  newlines if any, and with nothing behind the last word. (Of the sentences without a word,
  those made of spaces, tabs and newlines only count as such.)
\<close>

definition single_spaced :: "string \<Rightarrow> bool" where
  "single_spaced s = (dropWhile blank s = join_words (read_words s))"

text \<open>A span that \<open>stripParens\<close> removes: an opening parenthesis with a closing one after it.\<close>

fun has_paren_span :: "string \<Rightarrow> bool" where
  "has_paren_span [] = False"
| "has_paren_span (c # cs) = (c = CHR ''('' \<and> CHR '')'' \<in> set cs \<or> has_paren_span cs)"

text \<open>
  A sentence that needs no rewriting at the level of the rewriter, as far as words and length
  go: once its parenthesised spans are removed, none of its words is a key of the table and
  it has no more words than the limit.
\<close>

definition simple_sentence :: "SentenceRewriter \<Rightarrow> string \<Rightarrow> bool" where
  "simple_sentence r s =
     (list_all (plain_word (vocab r)) (read_words (stripParens r s))
      \<and> int (length (read_words (stripParens r s))) \<le> split_limit (rewriter_lvl r))"

section \<open>Properties of the readability analyzer\<close>

subsection \<open>Syllable counting\<close>

lemma starts_after_Nil: "starts_after p [] = 0"
  by (simp add: starts_after_def)

lemma starts_after_Cons:
  "starts_after p (c # cs) = (if isVowel c \<and> \<not> p then 1 else 0) + starts_after (isVowel c) cs"
proof -
  have upt: "[0..<length (c # cs)] = 0 # map Suc [0..<length cs]"
    by (simp add: upt_conv_Cons map_Suc_upt del: upt_Suc)
  have "filter (\<lambda>i. isVowel ((c # cs) ! i) \<and> (if i = 0 then \<not> p else \<not> isVowel ((c # cs) ! (i - 1))))
          (map Suc [0..<length cs])
        = map Suc (filter (\<lambda>i. isVowel (cs ! i) \<and> (if i = 0 then \<not> isVowel c else \<not> isVowel (cs ! (i - 1))))
          [0..<length cs])"
    unfolding filter_map
    by (rule arg_cong [where f = "map Suc"], rule filter_cong) (auto simp: nth_Cons split: nat.splits)
  then show ?thesis
    unfolding starts_after_def upt by simp
qed

lemma vowel_group_starts_eq: "vowel_group_starts w = starts_after False w"
  unfolding vowel_group_starts_def starts_after_def
  by (rule arg_cong [where f = length], rule filter_cong) auto

lemma syllable_scan_eq:
  "syllable_scan w (n, p) = (n + int (starts_after p w), if w = [] then p else isVowel (last w))"
  by (induction w arbitrary: n p) (auto simp: starts_after_Nil starts_after_Cons Let_def)

lemma starts_after_le: "starts_after p w \<le> length w"
  unfolding starts_after_def
  by (rule order_trans [OF length_filter_le]) simp

lemma syllable_scan_bound:
  "0 \<le> fst (syllable_scan w (0, False)) \<and> fst (syllable_scan w (0, False)) \<le> int (length w)"
  by (simp add: syllable_scan_eq starts_after_le)

text \<open>
  Claim C1. For every word, \<open>countSyllables\<close> is the number of vowel-group starts of the
  lowercased word, less one when the lowercased word is longer than two characters and ends
  in \<open>e\<close>, and at least 1 in any case; so the result is never below 1, "banana" has three
  syllables and "the" has one.
\<close>

theorem countSyllables_spec:
  "countSyllables w = syllables_spec w
   \<and> 1 \<le> countSyllables w
   \<and> countSyllables ''banana'' = 3
   \<and> countSyllables ''the'' = 1"
proof -
  have a: "countSyllables w = syllables_spec w" for w
    by (simp add: countSyllables_def syllables_spec_def Let_def syllable_scan_eq
        vowel_group_starts_eq)
  have b: "1 \<le> countSyllables w"
    by (simp add: countSyllables_def Let_def)
  have c: "countSyllables ''banana'' = 3"
    by (simp add: countSyllables_def lowercase_def tolower_def upper_letters_def
        lower_letters_def isVowel_def vowels_def Let_def)
  have d: "countSyllables ''the'' = 1"
    by (simp add: countSyllables_def lowercase_def tolower_def upper_letters_def
        lower_letters_def isVowel_def vowels_def Let_def)
  from a b c d show ?thesis by blast
qed

theorem countSyllables_spec_witness:
  "countSyllables ''Queue'' = 1 \<and> syllables_spec ''Queue'' = 1"
proof -
  have "countSyllables ''Queue'' = 1"
    by (simp add: countSyllables_def lowercase_def tolower_def upper_letters_def
        lower_letters_def isVowel_def vowels_def Let_def)
  then show ?thesis
    using countSyllables_spec [of "''Queue''"] by simp
qed

subsection \<open>Sentence segmentation\<close>

lemma split_scan_eq: "split_scan cs st = analyze_scan cs st"
  by (induction cs st rule: analyze_scan.induct) (simp_all add: Let_def)

lemma analyze_scan_concat:
  "concat (fst (analyze_scan cs (S, cur))) @ snd (analyze_scan cs (S, cur)) = concat S @ cur @ cs"
  by (induction cs arbitrary: S cur) (simp_all add: Let_def)

lemma analyze_scan_closed:
  "list_all closed_sentence S \<Longrightarrow> list_all (\<lambda>c. \<not> isTerminator c) cur
   \<Longrightarrow> list_all closed_sentence (fst (analyze_scan cs (S, cur)))"
  by (induction cs arbitrary: S cur) (simp_all add: Let_def closed_sentence_def)

lemma trailing_fragment_Cons:
  "trailing_fragment (c # cs) =
     (if list_all (\<lambda>c. \<not> isTerminator c) cs then (if isTerminator c then cs else c # cs)
      else trailing_fragment cs)"
  by (auto simp: trailing_fragment_def takeWhile_append list_all_iff)

lemma trailing_fragment_none:
  "list_all (\<lambda>c. \<not> isTerminator c) cs \<Longrightarrow> trailing_fragment cs = cs"
  by (induction cs) (simp_all add: trailing_fragment_Cons, simp add: trailing_fragment_def)

lemma analyze_scan_snd:
  "snd (analyze_scan cs (S, cur)) =
     (if list_all (\<lambda>c. \<not> isTerminator c) cs then cur @ cs else trailing_fragment cs)"
  by (induction cs arbitrary: S cur) (auto simp: Let_def trailing_fragment_Cons)

lemma analyze_scan_state:
  "analyze_scan text ([], []) = (analyze_sentences text, trailing_fragment text)"
  by (simp add: prod_eq_iff analyze_sentences_def analyze_scan_snd trailing_fragment_none)

lemma splitSentences_eq:
  "splitSentences text =
     analyze_sentences text @ (if trailing_fragment text = [] then [] else [trailing_fragment text])"
  by (simp add: splitSentences_def split_scan_eq analyze_scan_state)

lemma analyze_sentences_concat:
  "concat (analyze_sentences text) @ trailing_fragment text = text"
  using analyze_scan_concat [of "text" "[]" "[]"] by (simp add: analyze_scan_state)

lemma analyze_sentences_closed: "list_all closed_sentence (analyze_sentences text)"
  unfolding analyze_sentences_def by (rule analyze_scan_closed) simp_all

lemma trailing_fragment_terminated:
  "text \<noteq> [] \<Longrightarrow> isTerminator (last text) \<Longrightarrow> trailing_fragment text = []"
  by (cases "text" rule: rev_cases) (simp_all add: trailing_fragment_def)

lemma splitSentences_concat: "concat (splitSentences text) = text"
  using analyze_sentences_concat [of "text"] by (cases "trailing_fragment text = []") (simp_all add: splitSentences_eq)

subsection \<open>Rounding to binary64\<close>

lemma pow2_pos: "0 < pow2 k"
  by (simp add: pow2_def)

lemma pow2_add: "pow2 (j + k) = pow2 j * pow2 k"
proof -
  have "pow2 k = 2 powi k" for k
    by (simp add: pow2_def power_int_def power_divide)
  then show ?thesis by (simp add: power_int_add)
qed

lemma pow2_neg: "0 \<le> k \<Longrightarrow> pow2 (- k) = 1 / 2 ^ nat k"
  by (cases "k = 0") (simp_all add: pow2_def)

lemma exponent2_lower:
  assumes "x \<noteq> 0"
  shows "pow2 (exponent2 x) \<le> \<bar>x\<bar>"
proof (cases "\<bar>x\<bar> \<ge> 1")
  case True
  let ?n = "\<lfloor>\<bar>x\<bar>\<rfloor>"
  from True have n: "?n > 0" by linarith
  then have b: "bitlen ?n - 1 \<ge> 0" by (auto simp: bitlen_alt_def)
  from bitlen_bounds [OF n] have "2 ^ nat (bitlen ?n - 1) \<le> ?n" ..
  then have "(2::real) ^ nat (bitlen ?n - 1) \<le> of_int ?n"
    by (metis of_int_le_iff of_int_numeral of_int_power)
  also have "\<dots> \<le> \<bar>x\<bar>" by simp
  finally show ?thesis using True b by (simp add: exponent2_def pow2_def)
next
  case False
  let ?N = "\<lceil>1 / \<bar>x\<bar>\<rceil>"
  let ?k = "bitlen (?N - 1)"
  from False assms have "1 / \<bar>x\<bar> > 1" by simp
  then have N: "?N - 1 > 0" by linarith
  then have k: "?k \<ge> 1" by (auto simp: bitlen_alt_def)
  from bitlen_bounds [OF N] have "?N - 1 < 2 ^ nat ?k" ..
  then have "?N \<le> 2 ^ nat ?k" by simp
  then have "of_int ?N \<le> (2::real) ^ nat ?k"
    by (metis of_int_le_iff of_int_numeral of_int_power)
  moreover have "1 / \<bar>x\<bar> \<le> of_int ?N" by simp
  ultimately have "1 / \<bar>x\<bar> \<le> 2 ^ nat ?k" by linarith
  with assms have "1 / 2 ^ nat ?k \<le> \<bar>x\<bar>"
    by (simp add: field_simps)
  with False k show ?thesis by (simp add: exponent2_def pow2_def)
qed

lemma exponent2_upper:
  assumes "x \<noteq> 0"
  shows "\<bar>x\<bar> < pow2 (exponent2 x + 1)"
proof (cases "\<bar>x\<bar> \<ge> 1")
  case True
  let ?n = "\<lfloor>\<bar>x\<bar>\<rfloor>"
  from True have n: "?n > 0" by linarith
  then have b: "bitlen ?n \<ge> 0" by (auto simp: bitlen_alt_def)
  from bitlen_bounds [OF n] have "?n < 2 ^ nat (bitlen ?n)" ..
  then have "?n + 1 \<le> 2 ^ nat (bitlen ?n)" by simp
  then have "of_int (?n + 1) \<le> (2::real) ^ nat (bitlen ?n)"
    by (metis of_int_le_iff of_int_numeral of_int_power)
  moreover have "\<bar>x\<bar> < of_int (?n + 1)" by linarith
  ultimately have "\<bar>x\<bar> < 2 ^ nat (bitlen ?n)" by linarith
  with True b show ?thesis by (simp add: exponent2_def pow2_def)
next
  case False
  let ?N = "\<lceil>1 / \<bar>x\<bar>\<rceil>"
  let ?k = "bitlen (?N - 1)"
  from False assms have gt: "1 / \<bar>x\<bar> > 1" by simp
  then have N: "?N - 1 > 0" by linarith
  then have k: "?k \<ge> 1" by (auto simp: bitlen_alt_def)
  from bitlen_bounds [OF N] have "2 ^ nat (?k - 1) \<le> ?N - 1" ..
  then have "(2::real) ^ nat (?k - 1) \<le> of_int (?N - 1)"
    by (metis of_int_le_iff of_int_numeral of_int_power)
  moreover have "of_int (?N - 1) < 1 / \<bar>x\<bar>" by linarith
  ultimately have "2 ^ nat (?k - 1) < 1 / \<bar>x\<bar>" by linarith
  with assms have lt: "\<bar>x\<bar> < 1 / 2 ^ nat (?k - 1)"
    by (simp add: field_simps)
  have "exponent2 x + 1 = - (?k - 1)"
    using False by (simp add: exponent2_def)
  moreover have "pow2 (- (?k - 1)) = 1 / 2 ^ nat (?k - 1)"
    using k by (intro pow2_neg) simp
  ultimately show ?thesis using lt by simp
qed

lemma round_half_even_nonzero: "1 \<le> \<bar>y\<bar> \<Longrightarrow> round_half_even y \<noteq> 0"
  unfolding round_half_even_def Let_def
  by (auto split: if_splits) linarith+

lemma round_binary64_eq_0_iff: "round_binary64 x = 0 \<longleftrightarrow> x = 0"
proof
  assume r: "round_binary64 x = 0"
  show "x = 0"
  proof (rule ccontr)
    assume nz: "x \<noteq> 0"
    let ?q = "pow2 (exponent2 x - 52)"
    have q: "0 < ?q" by (rule pow2_pos)
    have "pow2 (exponent2 x) = ?q * pow2 52"
      using pow2_add [of "exponent2 x - 52" 52] by simp
    moreover have "(1::real) \<le> pow2 52" by (simp add: pow2_def)
    ultimately have "?q \<le> pow2 (exponent2 x)"
      using q by (simp add: mult_le_cancel_left1)
    also have "\<dots> \<le> \<bar>x\<bar>" by (rule exponent2_lower [OF nz])
    finally have "1 \<le> \<bar>x / ?q\<bar>" using q by (simp add: field_simps)
    then have "round_half_even (x / ?q) \<noteq> 0" by (rule round_half_even_nonzero)
    with q nz r show False by (simp add: round_binary64_def Let_def)
  qed
next
  assume "x = 0"
  then show "round_binary64 x = 0" by (simp add: round_binary64_def)
qed

text \<open>Rounding evaluated: the constants of the score, and two scores.\<close>

lemmas round_binary64_eval = round_binary64_def exponent2_def pow2_def round_half_even_def
  compute_bitlen Let_def

lemma flesch_constants:
  "round_binary64 206.835 = 7277359600993567 / 35184372088832"
  "round_binary64 1.015 = 4571153621781053 / 4503599627370496"
  "round_binary64 84.6 = 2976597878715187 / 35184372088832"
  by (simp_all add: round_binary64_eval)

lemma round_binary64_small:
  "round_binary64 1 = 1" "round_binary64 2 = 2" "round_binary64 (2 / 2) = 1"
  "round_binary64 (2 / 1) = 2"
  by (simp_all add: round_binary64_eval)

lemma calcFlesch_2_1: "calcFlesch 2 1 = 4229337446938051 / 35184372088832"
  unfolding calcFlesch_def dmul_def dsub_def flesch_constants
  by (simp add: round_binary64_eval)

lemma calcFlesch_0_0: "calcFlesch 0 0 = 7277359600993567 / 35184372088832"
  unfolding calcFlesch_def dmul_def dsub_def flesch_constants
  by (simp add: round_binary64_eval)

text \<open>
  Rounding shows in the level: for 43992 words and 46327 syllables in 1183 sentences the
  formula gives exactly 80 on the reals, but the doubles give a score just below 80, and
  so level 2.
\<close>

lemma flesch_rounding_example:
  "206.835 - 1.015 * (43992 / 1183) - 84.6 * (46327 / 43992) = (80::real)"
  "calcFlesch (round_binary64 (43992 / 1183)) (round_binary64 (46327 / 43992))
   = 5629499534213119 / 70368744177664"
  "estimate_level (calcFlesch (round_binary64 (43992 / 1183)) (round_binary64 (46327 / 43992))) = 2"
proof -
  have q: "round_binary64 (43992 / 1183) = 5233578687850879 / 140737488355328"
    "round_binary64 (46327 / 43992) = 4742640933287711 / 4503599627370496"
    by (simp_all add: round_binary64_eval)
  show "206.835 - 1.015 * (43992 / 1183) - 84.6 * (46327 / 43992) = (80::real)"
    by simp
  show c: "calcFlesch (round_binary64 (43992 / 1183)) (round_binary64 (46327 / 43992))
   = 5629499534213119 / 70368744177664"
    unfolding q calcFlesch_def dmul_def dsub_def flesch_constants
    by (simp add: round_binary64_eval)
  show "estimate_level (calcFlesch (round_binary64 (43992 / 1183)) (round_binary64 (46327 / 43992))) = 2"
    unfolding c by (simp add: estimate_level_def)
qed

subsection \<open>analyze\<close>

lemma analyze_scan_no_terminator:
  "list_all (\<lambda>c. \<not> isTerminator c) cs \<Longrightarrow> fst (analyze_scan cs (S, cur)) = S"
  by (induction cs arbitrary: cur) (simp_all add: Let_def)

lemma analyze_scan_mono: "length S \<le> length (fst (analyze_scan cs (S, cur)))"
proof (induction cs arbitrary: S cur)
  case Nil
  then show ?case by simp
next
  case (Cons c cs)
  show ?case
  proof (cases "isTerminator c")
    case True
    have "length S \<le> length (S @ [cur @ [c]])" by simp
    also have "\<dots> \<le> length (fst (analyze_scan cs (S @ [cur @ [c]], [])))" by (rule Cons.IH)
    finally show ?thesis using True by (simp add: Let_def)
  next
    case False
    then show ?thesis using Cons.IH [of S "cur @ [c]"] by (simp add: Let_def)
  qed
qed

lemma analyze_scan_terminator:
  "\<not> list_all (\<lambda>c. \<not> isTerminator c) cs \<Longrightarrow> length S < length (fst (analyze_scan cs (S, cur)))"
proof (induction cs arbitrary: S cur)
  case Nil
  then show ?case by simp
next
  case (Cons c cs)
  show ?case
  proof (cases "isTerminator c")
    case True
    have "length S < length (S @ [cur @ [c]])" by simp
    also have "\<dots> \<le> length (fst (analyze_scan cs (S @ [cur @ [c]], [])))"
      by (rule analyze_scan_mono)
    finally show ?thesis using True by (simp add: Let_def)
  next
    case False
    then show ?thesis using Cons.IH [of S "cur @ [c]"] Cons.prems by (simp add: Let_def)
  qed
qed

lemma analyze_sentences_empty_iff:
  "analyze_sentences text = [] \<longleftrightarrow> list_all (\<lambda>c. \<not> isTerminator c) text"
proof
  assume "analyze_sentences text = []"
  then show "list_all (\<lambda>c. \<not> isTerminator c) text"
    using analyze_scan_terminator [of "text" "[]" "[]"]
    by (auto simp: analyze_sentences_def)
next
  assume "list_all (\<lambda>c. \<not> isTerminator c) text"
  then show "analyze_sentences text = []"
    by (simp add: analyze_sentences_def analyze_scan_no_terminator)
qed

lemma analyze_no_sentences:
  "list_all (\<lambda>c. \<not> isTerminator c) text \<Longrightarrow> analyze text = Inr Metrics_default"
  by (simp add: analyze_def analyze_sentences_empty_iff)

lemma analyze_sentences_found:
  assumes "\<not> list_all (\<lambda>c. \<not> isTerminator c) text"
  shows "\<exists>m. analyze text = Inr m
           \<and> fleschScore m = calcFlesch (avgWordsPerSentence m) (avgSyllablesPerWord m)
           \<and> cefrEstimate m = estimate_level (fleschScore m)"
proof -
  from assms have ne: "analyze_sentences text \<noteq> []"
    by (simp add: analyze_sentences_empty_iff)
  obtain tw ts where c: "count_sentences (analyze_sentences text) (0, 0) = (tw, ts)"
    by (cases "count_sentences (analyze_sentences text) (0, 0)")
  from ne have "round_binary64 (of_nat (length (analyze_sentences text))) \<noteq> 0"
    by (simp add: round_binary64_eq_0_iff)
  moreover have "round_binary64 (of_int tw) \<noteq> 0" if "tw > 0"
    using that by (simp add: round_binary64_eq_0_iff)
  ultimately show ?thesis
    using ne c by (cases "tw > 0") (simp_all add: analyze_def fdiv_def Let_def)
qed

lemma estimate_level_range: "estimate_level f \<in> {1, 2, 3, 4, 5, 6}"
  by (simp add: estimate_level_def)

lemma analyze_total: "\<exists>m. analyze text = Inr m \<and> cefrEstimate m \<in> {0, 1, 2, 3, 4, 5, 6}"
proof (cases "list_all (\<lambda>c. \<not> isTerminator c) text")
  case True
  then show ?thesis by (simp add: analyze_no_sentences Metrics_default_def)
next
  case False
  from analyze_sentences_found [OF this] obtain m where
    "analyze text = Inr m" "cefrEstimate m = estimate_level (fleschScore m)" by blast
  then show ?thesis using estimate_level_range [of "fleschScore m"] by auto
qed

lemma trailing_fragment_no_terminator:
  "list_all (\<lambda>c. \<not> isTerminator c) (trailing_fragment text)"
proof -
  have "\<forall>c \<in> set (takeWhile (\<lambda>c. \<not> isTerminator c) (rev text)). \<not> isTerminator c"
    by (auto dest: set_takeWhileD)
  then show ?thesis by (simp add: trailing_fragment_def list_all_iff)
qed

text \<open>
  Claim C3. The segmentation of \<open>analyze\<close> and \<open>splitSentences\<close> both close a sentence right
  after a terminator, which stays in the sentence: the sentences of \<open>analyze\<close> are closed
  sentences, and together with the terminator-free trailing fragment they make up the text.
  When the trailing fragment is not empty, \<open>analyze\<close> drops it and \<open>splitSentences\<close> appends
  it as a last sentence; on a text that ends in a terminator the two segmentations are equal.
\<close>

theorem segmentation_asymmetry:
  "list_all closed_sentence (analyze_sentences text)
   \<and> list_all (\<lambda>c. \<not> isTerminator c) (trailing_fragment text)
   \<and> concat (analyze_sentences text) @ trailing_fragment text = text
   \<and> (trailing_fragment text \<noteq> [] \<longrightarrow>
        splitSentences text = analyze_sentences text @ [trailing_fragment text])
   \<and> (trailing_fragment text = [] \<longrightarrow> splitSentences text = analyze_sentences text)
   \<and> (text \<noteq> [] \<and> isTerminator (last text) \<longrightarrow>
        trailing_fragment text = [] \<and> splitSentences text = analyze_sentences text)"
  by (simp add: analyze_sentences_closed trailing_fragment_no_terminator analyze_sentences_concat
      splitSentences_eq trailing_fragment_terminated)

theorem segmentation_asymmetry_witness:
  "trailing_fragment ''Hi. Yo'' = '' Yo''
   \<and> analyze_sentences ''Hi. Yo'' = [''Hi.'']
   \<and> splitSentences ''Hi. Yo'' = [''Hi.'', '' Yo'']
   \<and> isTerminator (last ''So? No!'')
   \<and> splitSentences ''So? No!'' = [''So?'', '' No!'']
   \<and> analyze_sentences ''So? No!'' = [''So?'', '' No!'']"
proof -
  have t: "trailing_fragment ''Hi. Yo'' = '' Yo''"
    by (simp add: trailing_fragment_def isTerminator_def)
  have a: "analyze_sentences ''Hi. Yo'' = [''Hi.'']"
    by (simp add: analyze_sentences_def isTerminator_def Let_def)
  have l: "''So? No!'' \<noteq> [] \<and> isTerminator (last ''So? No!'')"
    by (simp add: isTerminator_def)
  have b: "analyze_sentences ''So? No!'' = [''So?'', '' No!'']"
    by (simp add: analyze_sentences_def isTerminator_def Let_def)
  show ?thesis
    using segmentation_asymmetry [of "''Hi. Yo''"] segmentation_asymmetry [of "''So? No!''"] t a l b
    by simp
qed

text \<open>
  Claim C9. The sentences returned by \<open>splitSentences\<close>, concatenated in order, are the text
  itself: the segmentation of the pipeline loses, repeats and moves no character.
\<close>

theorem splitSentences_lossless: "concat (splitSentences text) = text"
  by (rule splitSentences_concat)

theorem splitSentences_lossless_witness:
  "splitSentences ''Hi. Yo'' = [''Hi.'', '' Yo''] \<and> concat [''Hi.'', '' Yo''] = ''Hi. Yo''"
proof -
  have "splitSentences ''Hi. Yo'' = [''Hi.'', '' Yo'']"
    by (simp add: splitSentences_def isTerminator_def Let_def)
  then show ?thesis
    using splitSentences_lossless [of "''Hi. Yo''"] by simp
qed

text \<open>
  Claim C7. On the empty text, and on every text without a terminator, \<open>analyze\<close> returns the
  default record, whose three averages and score are zero and whose level is 0; and on no
  text at all does \<open>analyze\<close> divide by zero.
\<close>

theorem analyze_no_terminator:
  "analyze [] = Inr Metrics_default
   \<and> (list_all (\<lambda>c. \<not> isTerminator c) text \<longrightarrow> analyze text = Inr Metrics_default)
   \<and> avgWordsPerSentence Metrics_default = 0
   \<and> avgSyllablesPerWord Metrics_default = 0
   \<and> fleschScore Metrics_default = 0
   \<and> cefrEstimate Metrics_default = 0
   \<and> analyze text \<noteq> Inl DivisionByZero"
proof -
  have "analyze [] = Inr Metrics_default"
    by (rule analyze_no_sentences) simp
  moreover have "analyze text \<noteq> Inl DivisionByZero"
    using analyze_total [of "text"] by auto
  ultimately show ?thesis
    by (simp add: analyze_no_sentences Metrics_default_def)
qed

theorem analyze_no_terminator_witness:
  "list_all (\<lambda>c. \<not> isTerminator c) ''no end here''
   \<and> analyze ''no end here'' = Inr Metrics_default
   \<and> analyze ''...'' \<noteq> Inl DivisionByZero"
proof -
  have "list_all (\<lambda>c. \<not> isTerminator c) ''no end here''"
    by (simp add: isTerminator_def)
  then show ?thesis
    using analyze_no_terminator [of "''no end here''"] analyze_no_terminator [of "''...''"]
    by simp
qed

text \<open>
  Claim C2, as the code has it. On every text with at least one terminator \<open>analyze\<close> sets the
  score to \<open>206.835 - 1.015 * avgWordsPerSentence - 84.6 * avgSyllablesPerWord\<close>, computed in
  doubles (the three constants, the two products and the two differences each rounded to
  binary64), and the level by the first cutoff, from the top, that the score reaches: 80
  gives 1, 65 gives 2, 50 gives 3, 40 gives 4, 25 gives 5, anything lower 6. On every text
  the level is one of 0 to 6. A score of exactly 80, which is a double, gives level 1, and
  the double 79.999 gives level 2.
\<close>

theorem analyze_flesch_level:
  "(\<not> list_all (\<lambda>c. \<not> isTerminator c) text \<longrightarrow>
      (\<exists>m. analyze text = Inr m
         \<and> fleschScore m =
               dsub (dsub (round_binary64 206.835) (dmul (round_binary64 1.015) (avgWordsPerSentence m)))
                 (dmul (round_binary64 84.6) (avgSyllablesPerWord m))
         \<and> cefrEstimate m =
             (if fleschScore m \<ge> 80 then 1
              else if fleschScore m \<ge> 65 then 2
              else if fleschScore m \<ge> 50 then 3
              else if fleschScore m \<ge> 40 then 4
              else if fleschScore m \<ge> 25 then 5
              else 6)))
   \<and> (\<exists>m. analyze text = Inr m \<and> cefrEstimate m \<in> {0, 1, 2, 3, 4, 5, 6})
   \<and> round_binary64 80 = 80
   \<and> estimate_level 80 = 1
   \<and> estimate_level (round_binary64 79.999) = 2"
proof -
  have "\<exists>m. analyze text = Inr m
         \<and> fleschScore m =
               dsub (dsub (round_binary64 206.835) (dmul (round_binary64 1.015) (avgWordsPerSentence m)))
                 (dmul (round_binary64 84.6) (avgSyllablesPerWord m))
         \<and> cefrEstimate m =
             (if fleschScore m \<ge> 80 then 1
              else if fleschScore m \<ge> 65 then 2
              else if fleschScore m \<ge> 50 then 3
              else if fleschScore m \<ge> 40 then 4
              else if fleschScore m \<ge> 25 then 5
              else 6)"
    if "\<not> list_all (\<lambda>c. \<not> isTerminator c) text"
    using analyze_sentences_found [OF that]
    unfolding calcFlesch_def estimate_level_def by simp
  moreover have "round_binary64 80 = 80"
    by (simp add: round_binary64_eval)
  moreover have "estimate_level 80 = 1"
    by (simp add: estimate_level_def)
  moreover have "estimate_level (round_binary64 79.999) = 2"
  proof -
    have r: "round_binary64 79.999 = 2814714582734471 / 35184372088832"
      by (simp add: round_binary64_eval)
    show ?thesis unfolding r by (simp add: estimate_level_def)
  qed
  ultimately show ?thesis
    using analyze_total [of "text"] by blast
qed

lemma count_hi: "count_sentences [''Hi there.''] (0, 0) = (2, 2)"
  by (simp add: read_words.simps stream_extract_def isspace_def isalpha_def upper_letters_def lower_letters_def
     countSyllables_def lowercase_def tolower_def isVowel_def vowels_def Let_def)

theorem analyze_flesch_level_witness:
  "\<not> list_all (\<lambda>c. \<not> isTerminator c) ''Hi there.''
   \<and> analyze ''Hi there.'' =
       Inr \<lparr>avgWordsPerSentence = 2, avgSyllablesPerWord = 1,
            fleschScore = 4229337446938051 / 35184372088832, cefrEstimate = 1\<rparr>"
proof -
  have h: "\<not> list_all (\<lambda>c. \<not> isTerminator c) ''Hi there.''"
    by (simp add: isTerminator_def)
  have s: "analyze_sentences ''Hi there.'' = [''Hi there.'']"
    by (simp add: analyze_sentences_def isTerminator_def Let_def)
  have l: "estimate_level (4229337446938051 / 35184372088832) = 1"
    by (simp add: estimate_level_def)
  have a: "analyze ''Hi there.'' =
       Inr \<lparr>avgWordsPerSentence = 2, avgSyllablesPerWord = 1,
            fleschScore = 4229337446938051 / 35184372088832, cefrEstimate = 1\<rparr>"
    by (simp add: analyze_def s count_hi fdiv_def round_binary64_small Metrics_default_def
        calcFlesch_2_1 l Let_def del: count_sentences.simps)
  show ?thesis
    using analyze_flesch_level [of "''Hi there.''"] h a by simp
qed

text \<open>
  The claim as the specification words it, for every text, fails on the empty text: the
  early return leaves the score at 0, where the formula gives the double 206.835 for two
  zero averages, and the level at 0, where the cutoffs give 6 for a score of 0.
\<close>

theorem analyze_flesch_level_counterexample:
  "analyze [] = Inr Metrics_default
   \<and> fleschScore Metrics_default = 0
   \<and> dsub (dsub (round_binary64 206.835)
           (dmul (round_binary64 1.015) (avgWordsPerSentence Metrics_default)))
         (dmul (round_binary64 84.6) (avgSyllablesPerWord Metrics_default))
       = 7277359600993567 / 35184372088832
   \<and> cefrEstimate Metrics_default = 0
   \<and> estimate_level (fleschScore Metrics_default) = 6"
proof -
  have "dsub (dsub (round_binary64 206.835) (dmul (round_binary64 1.015) 0))
         (dmul (round_binary64 84.6) 0) = 7277359600993567 / 35184372088832"
    using calcFlesch_0_0 by (simp only: calcFlesch_def)
  then show ?thesis
    by (simp add: analyze_no_sentences Metrics_default_def estimate_level_def)
qed

section \<open>Properties of the vocabulary\<close>

lemma getSimplerWord_Some: "wordMap v (lowercase word) = Some simple \<Longrightarrow> getSimplerWord v word = simple"
  by (simp add: getSimplerWord_def)

lemma getSimplerWord_None: "wordMap v (lowercase word) = None \<Longrightarrow> getSimplerWord v word = word"
  by (simp add: getSimplerWord_def)

lemma loadA1_xyz: "loadA1 ''xyz'' = None"
  by (simp add: loadA1_def)

lemma loadA2_xyz: "loadA2 ''xyz'' = None"
  by (simp add: loadA2_def loadA1_def)

lemma lowercase_xyz: "lowercase ''xyz'' = ''xyz''"
  by (simp add: lowercase_def tolower_def upper_letters_def lower_letters_def)

lemma lowercase_UTILIZE: "lowercase ''UTILIZE'' = ''utilize''"
  by (simp add: lowercase_def tolower_def upper_letters_def lower_letters_def)

text \<open>
  Claim C5. \<open>getSimplerWord\<close> looks the lowercased word up: when it is a key of the table the
  result is the simple word it maps to, so that two spellings of a key that differ only in
  case get the same result; when it is not, the result is the word as it was given, in its
  own casing. With the beginner table "UTILIZE" gives "use", and "xyz" is returned as it is
  at either level.
\<close>

theorem getSimplerWord_lookup:
  "(\<forall>simple. wordMap v (lowercase word) = Some simple \<longrightarrow> getSimplerWord v word = simple)
   \<and> (wordMap v (lowercase word) = None \<longrightarrow> getSimplerWord v word = word)
   \<and> (wordMap v (lowercase word) \<noteq> None \<and> lowercase word' = lowercase word \<longrightarrow>
        getSimplerWord v word' = getSimplerWord v word)
   \<and> getSimplerWord (Vocabulary_new A1) ''UTILIZE'' = ''use''
   \<and> getSimplerWord (Vocabulary_new lvl) ''xyz'' = ''xyz''"
proof -
  have "getSimplerWord (Vocabulary_new A1) ''UTILIZE'' = ''use''"
    by (rule getSimplerWord_Some) (simp add: lowercase_UTILIZE Vocabulary_new_def loadA1_def)
  moreover have "getSimplerWord (Vocabulary_new lvl) ''xyz'' = ''xyz''"
    by (rule getSimplerWord_None) (simp add: lowercase_xyz Vocabulary_new_def loadA1_xyz loadA2_xyz)
  moreover have "wordMap v (lowercase word) \<noteq> None \<and> lowercase word' = lowercase word \<longrightarrow>
        getSimplerWord v word' = getSimplerWord v word"
    by (auto simp: getSimplerWord_def)
  moreover have "\<forall>simple. wordMap v (lowercase word) = Some simple \<longrightarrow> getSimplerWord v word = simple"
    by (simp add: getSimplerWord_def)
  moreover have "wordMap v (lowercase word) = None \<longrightarrow> getSimplerWord v word = word"
    by (simp add: getSimplerWord_def)
  ultimately show ?thesis
    by blast
qed

theorem getSimplerWord_lookup_witness:
  "wordMap (Vocabulary_new A2) (lowercase ''Purchase'') = Some ''buy''
   \<and> getSimplerWord (Vocabulary_new A2) ''Purchase'' = ''buy''
   \<and> getSimplerWord (Vocabulary_new A2) ''pURCHASE'' = ''buy''
   \<and> wordMap (Vocabulary_new A2) (lowercase ''Cat'') = None
   \<and> getSimplerWord (Vocabulary_new A2) ''Cat'' = ''Cat''"
proof -
  have l: "lowercase ''Purchase'' = ''purchase''" "lowercase ''pURCHASE'' = ''purchase''"
    "lowercase ''Cat'' = ''cat''"
    by (simp_all add: lowercase_def tolower_def upper_letters_def lower_letters_def)
  have p: "wordMap (Vocabulary_new A2) ''purchase'' = Some ''buy''"
    by (simp add: Vocabulary_new_def loadA2_def loadA1_def)
  have c: "wordMap (Vocabulary_new A2) ''cat'' = None"
    by (simp add: Vocabulary_new_def loadA2_def loadA1_def)
  have k: "getSimplerWord (Vocabulary_new A2) ''pURCHASE'' = getSimplerWord (Vocabulary_new A2) ''Purchase''"
    using getSimplerWord_lookup [of "Vocabulary_new A2" "''Purchase''" "''pURCHASE''"]
    unfolding l p by blast
  have "getSimplerWord (Vocabulary_new A2) ''Purchase'' = ''buy''"
    using getSimplerWord_lookup [of "Vocabulary_new A2" "''Purchase''"]
    unfolding l p by blast
  moreover have "getSimplerWord (Vocabulary_new A2) ''Cat'' = ''Cat''"
    using getSimplerWord_lookup [of "Vocabulary_new A2" "''Cat''"]
    unfolding l c by blast
  ultimately show ?thesis
    using k p c unfolding l by simp
qed

section \<open>Properties of the sentence rewriter\<close>

subsection \<open>Tokens\<close>

lemma spaced_Nil: "spaced [] = []"
  by (simp add: spaced_def)

lemma spaced_Cons: "spaced (w # ws) = w @ '' '' @ spaced ws"
  by (simp add: spaced_def)

lemma spaced_append: "spaced (xs @ ys) = spaced xs @ spaced ys"
  by (simp add: spaced_def)

lemma spaced_eq_Nil: "spaced ws = [] \<longleftrightarrow> ws = []"
  by (cases ws) (simp_all add: spaced_def)

lemma spaced_join_words: "ws \<noteq> [] \<Longrightarrow> spaced ws = join_words ws @ '' ''"
  by (induction ws rule: join_words.induct) (simp_all add: spaced_Cons spaced_Nil)

lemma butlast_spaced: "butlast (spaced ws) = join_words ws"
proof (cases "ws = []")
  case True
  then show ?thesis by (simp add: spaced_Nil)
next
  case False
  then show ?thesis by (simp add: spaced_join_words butlast_append)
qed

lemma isspace_blank: "isspace (CHR '' '')"
  by (simp add: isspace_def)

lemma stream_extract_Nil: "stream_extract [] = None"
  by (simp add: stream_extract_def)

lemma read_words_Nil: "read_words [] = []"
  by (simp add: read_words.simps stream_extract_Nil)

lemma stream_extract_space: "isspace c \<Longrightarrow> stream_extract (c # rest) = stream_extract rest"
  by (simp add: stream_extract_def)

lemma read_words_space: "isspace c \<Longrightarrow> read_words (c # rest) = read_words rest"
  by (subst read_words.simps, subst (2) read_words.simps) (simp add: stream_extract_space)

lemma stream_extract_word:
  assumes "word_ok w" and "rest = [] \<or> isspace (hd rest)"
  shows "stream_extract (w @ rest) = Some (w, rest)"
proof -
  from assms(1) have ne: "w \<noteq> []" and ns: "\<forall>c \<in> set w. \<not> isspace c"
    by (simp_all add: word_ok_def list_all_iff)
  from ne ns have d: "dropWhile isspace (w @ rest) = w @ rest"
    by (cases w) simp_all
  from ns assms(2) have t: "takeWhile (\<lambda>c. \<not> isspace c) (w @ rest) = w"
    by (cases rest) (simp_all add: takeWhile_append)
  from ns assms(2) have r: "dropWhile (\<lambda>c. \<not> isspace c) (w @ rest) = rest"
    by (cases rest) (simp_all add: dropWhile_append)
  from ne show ?thesis
    by (simp add: stream_extract_def d t r)
qed

lemma read_words_word:
  "word_ok w \<Longrightarrow> rest = [] \<or> isspace (hd rest) \<Longrightarrow> read_words (w @ rest) = w # read_words rest"
  by (subst read_words.simps) (simp add: stream_extract_word)

lemma read_words_spaced: "list_all word_ok ws \<Longrightarrow> read_words (spaced ws) = ws"
proof (induction ws)
  case Nil
  then show ?case by (simp add: spaced_Nil read_words_Nil)
next
  case (Cons w ws)
  then have "read_words (w @ CHR '' '' # spaced ws) = w # read_words (CHR '' '' # spaced ws)"
    by (intro read_words_word) (simp_all add: isspace_blank)
  with Cons show ?case
    by (simp add: spaced_Cons read_words_space isspace_blank)
qed

lemma read_words_join_words: "list_all word_ok ws \<Longrightarrow> read_words (join_words ws) = ws"
proof (induction ws rule: join_words.induct)
  case 1
  then show ?case by (simp add: read_words_Nil)
next
  case (2 w)
  then show ?case using read_words_word [of w "[]"] by (simp add: read_words_Nil)
next
  case (3 w v ws)
  then have "read_words (w @ CHR '' '' # join_words (v # ws)) = w # read_words (CHR '' '' # join_words (v # ws))"
    by (intro read_words_word) (simp_all add: isspace_blank)
  with 3 show ?case
    by (simp add: read_words_space isspace_blank)
qed

lemma stream_extract_ok:
  assumes "stream_extract ss = Some (tok, rest)"
  shows "word_ok tok"
proof -
  let ?s = "dropWhile isspace ss"
  from assms have ne: "?s \<noteq> []" and t: "tok = takeWhile (\<lambda>c. \<not> isspace c) ?s"
    by (auto simp: stream_extract_def Let_def split: if_splits)
  from ne have "\<not> isspace (hd ?s)" by (rule hd_dropWhile)
  with ne have "tok \<noteq> []" unfolding t by (cases ?s) auto
  moreover have "\<forall>c \<in> set tok. \<not> isspace c"
    unfolding t by (auto dest: set_takeWhileD)
  ultimately show ?thesis by (simp add: word_ok_def list_all_iff)
qed

lemma read_words_ok: "list_all word_ok (read_words ss)"
proof (induction ss rule: read_words.induct)
  case (1 ss)
  show ?case
  proof (cases "stream_extract ss")
    case None
    then show ?thesis by (subst read_words.simps) simp
  next
    case (Some p)
    obtain tok rest where p: "p = (tok, rest)" by (cases p)
    with Some 1 have "list_all word_ok (read_words rest)" by simp
    moreover from Some p have "word_ok tok" by (simp add: stream_extract_ok)
    ultimately show ?thesis using Some p by (subst read_words.simps) simp
  qed
qed

lemma read_words_idem: "read_words (spaced (read_words s)) = read_words s"
  by (rule read_words_spaced) (rule read_words_ok)

subsection \<open>trySplit\<close>

lemma open_chunk_Nil: "open_chunk limit []"
  by (simp add: open_chunk_def)

lemma open_chunk_snoc:
  "open_chunk limit (g @ [w]) \<longleftrightarrow> open_chunk limit g \<and> \<not> closes limit (length g) w"
  by (simp add: open_chunk_def enumerate_append_eq)

lemma closed_chunk_snoc:
  "open_chunk limit g \<Longrightarrow> closes limit (length g) w \<Longrightarrow> closed_chunk limit (g @ [w])"
  by (simp add: closed_chunk_def)

lemma split_loop_group_loop:
  "split_loop limit ws (map spaced gs, spaced g, int (length g)) =
     (case group_loop limit ws (gs, g) of
        (gs', g') \<Rightarrow> (map spaced gs', spaced g', int (length g')))"
proof (induction ws arbitrary: gs g)
  case Nil
  then show ?case by simp
next
  case (Cons w ws)
  have a: "spaced g @ w @ '' '' = spaced (g @ [w])"
    by (simp add: spaced_append spaced_Cons spaced_Nil)
  have b: "int (length g) + 1 = int (length (g @ [w]))"
    by simp
  show ?case
  proof (cases "isConjunction (lowercase w) \<and> int (length g) + 1 \<ge> limit div 2")
    case True
    have "split_loop limit (w # ws) (map spaced gs, spaced g, int (length g))
          = split_loop limit ws (map spaced (gs @ [g @ [w]]), spaced [], int (length ([] :: string list)))"
      using True by (simp add: Let_def a spaced_Nil)
    also have "\<dots> = (case group_loop limit ws (gs @ [g @ [w]], []) of
        (gs', g') \<Rightarrow> (map spaced gs', spaced g', int (length g')))"
      by (rule Cons.IH)
    finally show ?thesis using True by simp
  next
    case False
    have "split_loop limit (w # ws) (map spaced gs, spaced g, int (length g))
          = split_loop limit ws (map spaced gs, spaced (g @ [w]), int (length (g @ [w])))"
      using False by (simp only: split_loop.simps Let_def a b) auto
    also have "\<dots> = (case group_loop limit ws (gs, g @ [w]) of
        (gs', g') \<Rightarrow> (map spaced gs', spaced g', int (length g')))"
      by (rule Cons.IH)
    finally show ?thesis using False by auto
  qed
qed

lemma group_loop_concat:
  "group_loop limit ws (gs, g) = (gs', g') \<Longrightarrow> concat gs' @ g' = concat gs @ g @ ws"
  by (induction ws arbitrary: gs g) (auto split: if_splits)

lemma group_loop_chunks:
  "group_loop limit ws (gs, g) = (gs', g') \<Longrightarrow> list_all (closed_chunk limit) gs
   \<Longrightarrow> open_chunk limit g \<Longrightarrow> list_all (closed_chunk limit) gs' \<and> open_chunk limit g'"
proof (induction ws arbitrary: gs g)
  case Nil
  then show ?case by simp
next
  case (Cons w ws)
  show ?case
  proof (cases "closes limit (length g) w")
    case True
    with Cons.prems have "group_loop limit ws (gs @ [g @ [w]], []) = (gs', g')"
      by (simp add: closes_def)
    moreover from True Cons.prems have "list_all (closed_chunk limit) (gs @ [g @ [w]])"
      by (simp add: closed_chunk_snoc)
    ultimately show ?thesis
      by (rule Cons.IH) (rule open_chunk_Nil)
  next
    case False
    with Cons.prems have "group_loop limit ws (gs, g @ [w]) = (gs', g')"
      by (auto simp: closes_def)
    moreover from False Cons.prems have "open_chunk limit (g @ [w])"
      by (simp add: open_chunk_snoc)
    ultimately show ?thesis
      using Cons.prems(2) by (intro Cons.IH)
  qed
qed

text \<open>The chunks of a sentence with more words than the limit.\<close>

lemma trySplit_over:
  assumes "split_limit (rewriter_lvl r) < int (length (read_words s))"
    and "group_loop (split_limit (rewriter_lvl r)) (read_words s) ([], []) = (gs, g)"
  shows "trySplit r s = map spaced gs @ (if g = [] then [] else [spaced g])"
proof -
  have "split_loop (split_limit (rewriter_lvl r)) (read_words s) ([], [], 0)
        = (map spaced gs, spaced g, int (length g))"
    using split_loop_group_loop [of "split_limit (rewriter_lvl r)" "read_words s" "[]" "[]"] assms(2)
    by (simp add: spaced_Nil)
  with assms(1) show ?thesis
    by (simp add: trySplit_def Let_def spaced_eq_Nil)
qed

lemma trySplit_within:
  "int (length (read_words s)) \<le> split_limit (rewriter_lvl r) \<Longrightarrow> trySplit r s = [s]"
  by (simp add: trySplit_def Let_def)

lemma concat_map_spaced: "concat (map spaced gs) = spaced (concat gs)"
  by (induction gs) (simp_all add: spaced_Nil spaced_append)

lemma trySplit_words: "read_words (concat (trySplit r s)) = read_words s"
proof (cases "int (length (read_words s)) \<le> split_limit (rewriter_lvl r)")
  case True
  then show ?thesis by (simp add: trySplit_within)
next
  case False
  obtain gs g where gl: "group_loop (split_limit (rewriter_lvl r)) (read_words s) ([], []) = (gs, g)"
    by (cases "group_loop (split_limit (rewriter_lvl r)) (read_words s) ([], [])")
  from False have "trySplit r s = map spaced gs @ (if g = [] then [] else [spaced g])"
    by (intro trySplit_over gl) simp
  then have "concat (trySplit r s) = spaced (concat gs @ g)"
    by (simp add: concat_map_spaced spaced_append spaced_Nil)
  also have "concat gs @ g = read_words s"
    using group_loop_concat [OF gl] by simp
  finally show ?thesis by (simp add: read_words_idem)
qed

lemma group_loop_append:
  "group_loop limit (xs @ ys) st = group_loop limit ys (group_loop limit xs st)"
proof (induction xs arbitrary: st)
  case Nil
  then show ?case by simp
next
  case (Cons x xs)
  then show ?case by (cases st) simp
qed

lemma group_loop_plain:
  "list_all (\<lambda>w. \<not> isConjunction (lowercase w)) ws \<Longrightarrow> group_loop limit ws (gs, g) = (gs, g @ ws)"
  by (induction ws arbitrary: g) simp_all

lemma lowercase_and: "lowercase ''and'' = ''and''"
  by (simp add: lowercase_def tolower_def upper_letters_def lower_letters_def)

lemma word_ok_and: "word_ok ''and''"
  by (simp add: word_ok_def isspace_def)

lemma rewriter_lvl_new: "rewriter_lvl (SentenceRewriter_new lvl v) = lvl"
  by (simp add: SentenceRewriter_new_def)

lemma vocab_new: "vocab (SentenceRewriter_new lvl v) = v"
  by (simp add: SentenceRewriter_new_def)

text \<open>Six plain words, "and", six plain words, at the beginner level.\<close>

lemma trySplit_six_and_six:
  assumes "length as = 6" and "length bs = 6"
    and "list_all word_ok (as @ bs)"
    and "list_all (\<lambda>w. \<not> isConjunction (lowercase w)) (as @ bs)"
  shows "trySplit (SentenceRewriter_new A1 v) (join_words (as @ ''and'' # bs))
         = [spaced (as @ [''and'']), spaced bs]"
proof -
  let ?r = "SentenceRewriter_new A1 v"
  let ?s = "join_words (as @ ''and'' # bs)"
  from assms(3) have "list_all word_ok (as @ ''and'' # bs)"
    by (simp add: word_ok_and)
  then have rw: "read_words ?s = as @ ''and'' # bs"
    by (rule read_words_join_words)
  have lim: "split_limit (rewriter_lvl ?r) = 10"
    by (simp add: rewriter_lvl_new split_limit_def)
  from assms(1,2) have over: "split_limit (rewriter_lvl ?r) < int (length (read_words ?s))"
    by (simp add: rw lim)
  from assms(4) have pa: "list_all (\<lambda>w. \<not> isConjunction (lowercase w)) as"
    and pb: "list_all (\<lambda>w. \<not> isConjunction (lowercase w)) bs"
    by simp_all
  have "group_loop 10 (as @ ''and'' # bs) ([], []) = group_loop 10 (''and'' # bs) ([], as)"
    by (simp only: group_loop_append [of 10 as] group_loop_plain [OF pa] append_Nil)
  also have "\<dots> = group_loop 10 bs ([as @ [''and'']], [])"
    using assms(1) by (simp add: lowercase_and isConjunction_def)
  also have "\<dots> = ([as @ [''and'']], bs)"
    by (simp add: group_loop_plain [OF pb])
  finally have gl: "group_loop (split_limit (rewriter_lvl ?r)) (read_words ?s) ([], []) = ([as @ [''and'']], bs)"
    by (simp only: rw lim)
  from assms(2) have "bs \<noteq> []" by auto
  with trySplit_over [OF over gl] show ?thesis by simp
qed

lemma read_words_example:
  "read_words ''A A A A A A and B B B B B B''
   = [''A'', ''A'', ''A'', ''A'', ''A'', ''A'', ''and'', ''B'', ''B'', ''B'', ''B'', ''B'', ''B'']"
  by (simp add: read_words.simps stream_extract_def isspace_def)

lemma trySplit_example:
  "trySplit (SentenceRewriter_new A1 v) ''A A A A A A and B B B B B B''
   = [''A A A A A A and '', ''B B B B B B '']"
  by (simp add: trySplit_def rewriter_lvl_new split_limit_def read_words_example Let_def
      isConjunction_def lowercase_def tolower_def upper_letters_def lower_letters_def)

text \<open>
  Claim C4. A sentence of at most \<open>limit\<close> words (10 at the beginner level, 15 at the
  elementary one) comes back alone and unchanged. For a longer sentence the words fall into
  closed chunks, each ending in the first word that closes it (a word that lowercases to "and",
  "but" or "because" and brings the chunk to at least \<open>limit div 2\<close> words), and an open rest
  that no word closes; \<open>trySplit\<close> returns the closed chunks in order and then the rest when it
  is not empty, every word followed by one space, the conjunction inside its chunk. So six
  words, "and" and six more words, none of the twelve a conjunction, give two chunks at the
  beginner level, the first one ending in "and".
\<close>

theorem trySplit_chunks:
  "(int (length (read_words s)) \<le> split_limit (rewriter_lvl r) \<longrightarrow> trySplit r s = [s])
   \<and> (split_limit (rewriter_lvl r) < int (length (read_words s)) \<longrightarrow>
        (\<exists>gs g. concat gs @ g = read_words s
           \<and> list_all (closed_chunk (split_limit (rewriter_lvl r))) gs
           \<and> open_chunk (split_limit (rewriter_lvl r)) g
           \<and> trySplit r s = map spaced gs @ (if g = [] then [] else [spaced g])))
   \<and> split_limit A1 = 10 \<and> split_limit A2 = 15
   \<and> (length as = 6 \<and> length bs = 6 \<and> list_all word_ok (as @ bs)
        \<and> list_all (\<lambda>w. \<not> isConjunction (lowercase w)) (as @ bs) \<longrightarrow>
        trySplit (SentenceRewriter_new A1 v) (join_words (as @ ''and'' # bs))
          = [spaced (as @ [''and'']), spaced bs])
   \<and> trySplit (SentenceRewriter_new A1 v) ''A A A A A A and B B B B B B''
        = [''A A A A A A and '', ''B B B B B B '']"
proof -
  have over: "\<exists>gs g. concat gs @ g = read_words s
           \<and> list_all (closed_chunk (split_limit (rewriter_lvl r))) gs
           \<and> open_chunk (split_limit (rewriter_lvl r)) g
           \<and> trySplit r s = map spaced gs @ (if g = [] then [] else [spaced g])"
    if o: "split_limit (rewriter_lvl r) < int (length (read_words s))"
  proof -
    obtain gs g where gl: "group_loop (split_limit (rewriter_lvl r)) (read_words s) ([], []) = (gs, g)"
      by (cases "group_loop (split_limit (rewriter_lvl r)) (read_words s) ([], [])")
    have "concat gs @ g = read_words s"
      using group_loop_concat [OF gl] by simp
    moreover have "list_all (closed_chunk (split_limit (rewriter_lvl r))) gs
        \<and> open_chunk (split_limit (rewriter_lvl r)) g"
      by (rule group_loop_chunks [OF gl]) (simp_all add: open_chunk_Nil)
    moreover note trySplit_over [OF o gl]
    ultimately show ?thesis by blast
  qed
  have lim: "split_limit A1 = 10" "split_limit A2 = 15"
    by (simp_all add: split_limit_def)
  show ?thesis
    using over lim trySplit_within [of s r] trySplit_six_and_six [of as bs v] trySplit_example [of v]
    by blast
qed

theorem trySplit_chunks_witness:
  "int (length (read_words ''one  two'')) \<le> split_limit A1
   \<and> trySplit (SentenceRewriter_new A1 (Vocabulary_new A1)) ''one  two'' = [''one  two'']
   \<and> split_limit A1 < int (length (read_words ''A A A A A A and B B B B B B''))
   \<and> (\<exists>gs g. concat gs @ g = read_words ''A A A A A A and B B B B B B''
           \<and> list_all (closed_chunk (split_limit A1)) gs
           \<and> open_chunk (split_limit A1) g
           \<and> trySplit (SentenceRewriter_new A1 (Vocabulary_new A1)) ''A A A A A A and B B B B B B''
               = map spaced gs @ (if g = [] then [] else [spaced g]))"
proof -
  let ?r = "SentenceRewriter_new A1 (Vocabulary_new A1)"
  have l: "split_limit (rewriter_lvl ?r) = split_limit A1"
    by (simp only: rewriter_lvl_new)
  have a: "int (length (read_words ''one  two'')) \<le> split_limit A1"
    by (simp add: read_words.simps stream_extract_def isspace_def split_limit_def)
  have b: "split_limit A1 < int (length (read_words ''A A A A A A and B B B B B B''))"
    by (simp add: read_words_example split_limit_def)
  from a b show ?thesis
    using trySplit_chunks [of "''one  two''" ?r] trySplit_chunks [of "''A A A A A A and B B B B B B''" ?r]
    unfolding l by blast
qed

text \<open>
  Claim C10. The chunks of \<open>trySplit\<close>, concatenated, read as the same words in the same order
  as the sentence, whether or not a chunk stays within the limit.
\<close>

theorem trySplit_preserves_words: "read_words (concat (trySplit r s)) = read_words s"
  by (rule trySplit_words)

theorem trySplit_preserves_words_witness:
  "read_words (concat [''A A A A A A and '', ''B B B B B B ''])
   = [''A'', ''A'', ''A'', ''A'', ''A'', ''A'', ''and'', ''B'', ''B'', ''B'', ''B'', ''B'', ''B'']"
  using trySplit_preserves_words [of "SentenceRewriter_new A1 (Vocabulary_new A1)" "''A A A A A A and B B B B B B''"]
  by (simp only: trySplit_example read_words_example)

subsection \<open>swapWords and rewrite on plain sentences\<close>

lemma strip_punct_append: "strip_punct tok punct = (t, p) \<Longrightarrow> t @ p = tok @ punct"
proof (induction tok punct arbitrary: t p rule: strip_punct.induct)
  case (1 tok punct)
  show ?case
  proof (cases "tok \<noteq> [] \<and> ispunct (last tok)")
    case True
    with "1.prems" have "strip_punct (butlast tok) (last tok # punct) = (t, p)"
      by (subst (asm) strip_punct.simps) simp
    with True "1.IH" have "t @ p = butlast tok @ last tok # punct" by blast
    also have "\<dots> = (butlast tok @ [last tok]) @ punct" by simp
    also from True have "butlast tok @ [last tok] = tok" by simp
    finally show ?thesis .
  next
    case False
    with "1.prems" show ?thesis by (subst (asm) strip_punct.simps) auto
  qed
qed

lemma swap_loop_plain:
  "list_all (plain_word v) toks \<Longrightarrow> swap_loop v toks out = out @ spaced toks"
proof (induction toks arbitrary: out)
  case Nil
  then show ?case by (simp add: spaced_Nil)
next
  case (Cons tok toks)
  obtain t p where sp: "strip_punct tok [] = (t, p)" by (cases "strip_punct tok []")
  from Cons.prems sp have "getSimplerWord v t = t"
    by (simp add: plain_word_def getSimplerWord_None)
  moreover have "t @ p = tok"
    using strip_punct_append [OF sp] by simp
  ultimately have e: "out @ getSimplerWord v t @ p @ '' '' = out @ tok @ '' ''"
    by (metis append.assoc)
  have "swap_loop v (tok # toks) out = swap_loop v toks (out @ tok @ '' '')"
    by (simp only: swap_loop.simps sp prod.case e)
  also have "\<dots> = (out @ tok @ '' '') @ spaced toks"
    using Cons.prems by (intro Cons.IH) simp
  finally show ?case by (simp add: spaced_Cons)
qed

lemma swapWords_plain:
  "list_all (plain_word (vocab r)) (read_words s) \<Longrightarrow> swapWords r s = join_words (read_words s)"
  by (simp add: swapWords_def swap_loop_plain Let_def butlast_spaced spaced_eq_Nil)

lemma rewrite_plain:
  assumes "list_all (plain_word (vocab r)) (read_words (stripParens r s))"
    and "int (length (read_words (stripParens r s))) \<le> split_limit (rewriter_lvl r)"
  shows "rewrite r s = [join_words (read_words (stripParens r s))]"
proof -
  let ?ws = "read_words (stripParens r s)"
  have "read_words (join_words ?ws) = ?ws"
    by (rule read_words_join_words) (rule read_words_ok)
  with assms(2) have "trySplit r (join_words ?ws) = [join_words ?ws]"
    by (intro trySplit_within) simp
  with assms(1) show ?thesis
    by (simp add: rewrite_def fixPassive_def swapWords_plain Let_def)
qed

section \<open>Properties of the simplifier\<close>

text \<open>
  Claim C6, as the code has it. \<open>rejoin\<close> of the single chunk "hello world" is
  "Hello world. ": the first character in upper case, a period appended, and after it the
  space that \<open>rejoin\<close> puts behind every chunk, the last one included.
\<close>

theorem rejoin_hello_world: "rejoin [''hello world''] = ''Hello world. ''"
  by (simp add: rejoin_def rejoin_part_def toupper_def upper_letters_def lower_letters_def)

theorem rejoin_hello_world_witness: "butlast (rejoin [''hello world'']) = ''Hello world.''"
  using rejoin_hello_world by simp

text \<open>The result is not the string "Hello world." of the claim: it is one character longer.\<close>

theorem rejoin_hello_world_counterexample:
  "rejoin [''hello world''] \<noteq> ''Hello world.'' \<and> length (rejoin [''hello world'']) = 13
   \<and> last (rejoin [''hello world'']) = CHR '' ''"
  by (simp add: rejoin_def rejoin_part_def toupper_def upper_letters_def lower_letters_def)

subsection \<open>rejoin\<close>

lemma find_first_not_of_None:
  "find_first_not_of p chars = None \<Longrightarrow> dropWhile (\<lambda>c. c \<in> set chars) p = []"
  by (induction p) (auto split: if_splits)

lemma find_first_not_of_Some:
  "find_first_not_of p chars = Some n \<Longrightarrow>
     drop n p = dropWhile (\<lambda>c. c \<in> set chars) p \<and> dropWhile (\<lambda>c. c \<in> set chars) p \<noteq> []"
  by (induction p arbitrary: n) (auto split: if_splits)

lemma find_first_not_of_drop:
  "(case find_first_not_of p chars of Some start \<Rightarrow> drop start p | None \<Rightarrow> p)
   = (if dropWhile (\<lambda>c. c \<in> set chars) p = [] then p else dropWhile (\<lambda>c. c \<in> set chars) p)"
proof (cases "find_first_not_of p chars")
  case None
  then show ?thesis by (simp add: find_first_not_of_None)
next
  case (Some n)
  from find_first_not_of_Some [OF this] show ?thesis using Some by auto
qed

lemma rejoin_part_trimmed:
  "rejoin_part out p =
     (let s = trimmed p
      in if s = [] then out
         else
           let s = toupper (hd s) # tl s;
               s = (if last s \<noteq> CHR ''.'' \<and> last s \<noteq> CHR ''!'' \<and> last s \<noteq> CHR ''?''
                    then s @ ''.'' else s)
           in out @ s @ '' '')"
proof -
  have "(\<lambda>c. c \<in> set [CHR '' '', CHR 0x09, CHR 0x0A]) = blank"
    by (simp add: blank_def fun_eq_iff)
  then show ?thesis
    unfolding rejoin_part_def find_first_not_of_drop trimmed_def by simp
qed

lemma rejoin_part_cong: "trimmed p = trimmed q \<Longrightarrow> rejoin_part out p = rejoin_part out q"
  by (simp add: rejoin_part_trimmed)

lemma foldl_rejoin_part_cong:
  "list_all (\<lambda>s. trimmed (f s) = trimmed s) ss
   \<Longrightarrow> foldl rejoin_part out (map f ss) = foldl rejoin_part out ss"
proof (induction ss arbitrary: out)
  case Nil
  then show ?case by simp
next
  case (Cons s ss)
  then have "rejoin_part out (f s) = rejoin_part out s"
    by (intro rejoin_part_cong) simp
  with Cons show ?case by simp
qed

lemma blank_isspace: "blank c \<Longrightarrow> isspace c"
  by (auto simp: blank_def isspace_def)

lemma join_words_hd:
  "ws \<noteq> [] \<Longrightarrow> list_all word_ok ws \<Longrightarrow> join_words ws \<noteq> [] \<and> \<not> isspace (hd (join_words ws))"
  by (induction ws rule: join_words.induct) (auto simp: word_ok_def list_all_iff)

lemma trimmed_join_words:
  assumes "list_all word_ok ws"
  shows "trimmed (join_words ws) = join_words ws"
proof (cases "ws = []")
  case True
  then show ?thesis by (simp add: trimmed_def)
next
  case False
  from join_words_hd [OF False assms] have "join_words ws \<noteq> []" "\<not> blank (hd (join_words ws))"
    by (auto dest: blank_isspace)
  then have "dropWhile blank (join_words ws) = join_words ws"
    by (cases "join_words ws") simp_all
  then show ?thesis by (simp add: trimmed_def)
qed

lemma trimmed_single_spaced:
  assumes "single_spaced s" and ne: "read_words s \<noteq> []"
  shows "trimmed (join_words (read_words s)) = trimmed s"
proof -
  from assms have d: "dropWhile blank s = join_words (read_words s)"
    by (simp add: single_spaced_def)
  from join_words_hd [OF ne read_words_ok] have "join_words (read_words s) \<noteq> []" by simp
  with d have "trimmed s = join_words (read_words s)" by (simp add: trimmed_def)
  then show ?thesis by (simp add: trimmed_join_words read_words_ok)
qed

lemma remove_paren_spans_none: "\<not> has_paren_span s \<Longrightarrow> remove_paren_spans s = s"
  by (induction s) auto

lemma stripParens_none: "\<not> has_paren_span s \<Longrightarrow> stripParens r s = s"
  by (simp add: stripParens_def remove_paren_spans_none)

subsection \<open>run on simple text\<close>

lemma rewriter_Simplifier_new:
  "rewriter (Simplifier_new lvl) = SentenceRewriter_new lvl (Vocabulary_new lvl)"
  by (simp add: Simplifier_new_def)

lemma run_simplified:
  "simplified (run sim text) = rejoin (concat (map (rewrite (rewriter sim)) (splitSentences text)))"
  by (simp add: run_def Let_def)

lemma concat_rewrite_simple:
  "list_all (simple_sentence r) ss \<Longrightarrow>
     concat (map (rewrite r) ss) = map (\<lambda>s. join_words (read_words (stripParens r s))) ss"
  by (induction ss) (simp_all add: simple_sentence_def rewrite_plain)

lemma run_simple:
  assumes "list_all (simple_sentence (rewriter sim)) (splitSentences text)"
  shows "simplified (run sim text)
         = rejoin (map (\<lambda>s. join_words (read_words (stripParens (rewriter sim) s))) (splitSentences text))"
  by (simp add: run_simplified concat_rewrite_simple [OF assms])

text \<open>A sentence without a word is all whitespace and so has no parenthesised span.\<close>

lemma read_words_empty: "read_words s = [] \<Longrightarrow> list_all isspace s"
proof -
  assume "read_words s = []"
  then have "stream_extract s = None"
    by (subst (asm) read_words.simps) (simp split: option.splits prod.splits)
  then have "dropWhile isspace s = []"
    by (simp add: stream_extract_def Let_def split: if_splits)
  then show ?thesis by (simp add: list_all_iff)
qed

lemma has_paren_span_paren: "has_paren_span s \<Longrightarrow> CHR ''('' \<in> set s"
  by (induction s) auto

lemma wordless_no_span: "read_words s = [] \<Longrightarrow> \<not> has_paren_span s"
proof
  assume "read_words s = []" and "has_paren_span s"
  then have "isspace (CHR ''('')"
    using read_words_empty [of s] has_paren_span_paren [of s] by (auto simp: list_all_iff)
  then show False by (simp add: isspace_def)
qed

lemma rejoin_part_Nil: "rejoin_part out [] = out"
  by (simp add: rejoin_part_def)

lemma foldl_rejoin_part_filter:
  "list_all (\<lambda>s. if P s then trimmed (f s) = trimmed s else f s = []) ss
   \<Longrightarrow> foldl rejoin_part out (map f ss) = foldl rejoin_part out (filter P ss)"
proof (induction ss arbitrary: out)
  case Nil
  then show ?case by simp
next
  case (Cons s ss)
  show ?case
  proof (cases "P s")
    case True
    with Cons.prems have "rejoin_part out (f s) = rejoin_part out s"
      by (intro rejoin_part_cong) simp
    with True Cons show ?thesis by simp
  next
    case False
    with Cons.prems have "f s = []" by simp
    with False Cons show ?thesis by (simp add: rejoin_part_Nil)
  qed
qed

text \<open>The simplified text as the reassembly of the sentences that hold a word.\<close>

lemma run_simple_worded:
  assumes "list_all (simple_sentence (rewriter sim)) (splitSentences text)"
    and "list_all (\<lambda>s. \<not> has_paren_span s \<and> single_spaced s)
           (filter (\<lambda>s. read_words s \<noteq> []) (splitSentences text))"
  shows "simplified (run sim text) = rejoin (filter (\<lambda>s. read_words s \<noteq> []) (splitSentences text))"
proof -
  let ?f = "\<lambda>s. join_words (read_words (stripParens (rewriter sim) s))"
  have "if read_words s \<noteq> [] then trimmed (?f s) = trimmed s else ?f s = []"
    if "s \<in> set (splitSentences text)" for s
  proof (cases "read_words s \<noteq> []")
    case True
    with that assms(2) have "\<not> has_paren_span s" "single_spaced s"
      by (auto simp: list_all_iff)
    with True show ?thesis
      by (simp add: stripParens_none trimmed_single_spaced)
  next
    case False
    then have "\<not> has_paren_span s" by (simp add: wordless_no_span)
    with False show ?thesis by (simp add: stripParens_none)
  qed
  then have "list_all (\<lambda>s. if read_words s \<noteq> [] then trimmed (?f s) = trimmed s else ?f s = [])
          (splitSentences text)"
    by (simp add: list_all_iff)
  then show ?thesis
    unfolding run_simple [OF assms(1)] rejoin_def by (rule foldl_rejoin_part_filter)
qed

lemma run_simple_single_spaced:
  assumes "list_all (simple_sentence (rewriter sim)) (splitSentences text)"
    and "list_all (\<lambda>s. read_words s \<noteq> [] \<and> \<not> has_paren_span s \<and> single_spaced s)
           (splitSentences text)"
  shows "simplified (run sim text) = rejoin (splitSentences text)"
proof -
  from assms(2) have f: "filter (\<lambda>s. read_words s \<noteq> []) (splitSentences text) = splitSentences text"
    by (simp add: list_all_iff)
  from assms(2) have "list_all (\<lambda>s. \<not> has_paren_span s \<and> single_spaced s)
           (filter (\<lambda>s. read_words s \<noteq> []) (splitSentences text))"
    unfolding f by (simp add: list_all_iff)
  from run_simple_worded [OF assms(1) this] show ?thesis
    unfolding f .
qed

subsection \<open>Examples\<close>

lemma run_example_parens:
  "splitSentences ''Go (now) on.'' = [''Go (now) on.'']
   \<and> read_words ''Go (now) on.'' = [''Go'', ''(now)'', ''on.'']
   \<and> list_all (plain_word (Vocabulary_new A1)) [''Go'', ''(now)'', ''on.'']
   \<and> simplified (run (Simplifier_new A1) ''Go (now) on.'') = ''Go on. ''
   \<and> rejoin (splitSentences ''Go (now) on.'') = ''Go (now) on. ''"
proof -
  have s: "splitSentences ''Go (now) on.'' = [''Go (now) on.'']"
    by (simp add: splitSentences_def isTerminator_def Let_def)
  have w: "read_words ''Go (now) on.'' = [''Go'', ''(now)'', ''on.'']"
    by (simp add: read_words.simps stream_extract_def isspace_def)
  have w': "read_words ''Go  on.'' = [''Go'', ''on.'']"
    by (simp add: read_words.simps stream_extract_def isspace_def)
  have w'': "read_words ''Go on.'' = [''Go'', ''on.'']"
    by (simp add: read_words.simps stream_extract_def isspace_def)
  have p: "strip_punct ''Go'' [] = (''Go'', [])" "strip_punct ''on.'' [] = (''on'', ''.'')"
    "strip_punct ''(now)'' [] = (''(now'', '')'')"
    by (simp_all add: strip_punct.simps ispunct_def)
  have l: "lowercase ''Go'' = ''go''" "lowercase ''on'' = ''on''" "lowercase ''(now'' = ''(now''"
    by (simp_all add: lowercase_def tolower_def upper_letters_def lower_letters_def)
  have v: "loadA1 ''go'' = None" "loadA1 ''on'' = None" "loadA1 ''(now'' = None"
    by (simp_all add: loadA1_def)
  have pl: "list_all (plain_word (Vocabulary_new A1)) [''Go'', ''(now)'', ''on.'']"
    by (simp add: plain_word_def p l v Vocabulary_new_def)
  have sw: "swapWords (SentenceRewriter_new A1 (Vocabulary_new A1)) ''Go  on.'' = ''Go on.''"
    by (simp add: swapWords_def SentenceRewriter_new_def w' p getSimplerWord_def l v
        Vocabulary_new_def)
  have rw: "rewrite (SentenceRewriter_new A1 (Vocabulary_new A1)) ''Go (now) on.'' = [''Go on.'']"
    by (simp add: rewrite_def stripParens_def fixPassive_def sw trySplit_def w'' split_limit_def
        rewriter_lvl_new)
  have r: "simplified (run (Simplifier_new A1) ''Go (now) on.'') = ''Go on. ''"
    by (simp add: run_def s Simplifier_new_def rw rejoin_def rejoin_part_def toupper_def
        upper_letters_def lower_letters_def)
  have j: "rejoin (splitSentences ''Go (now) on.'') = ''Go (now) on. ''"
    by (simp add: s rejoin_def rejoin_part_def toupper_def upper_letters_def lower_letters_def)
  from s w pl r j show ?thesis by simp
qed

lemma run_example_spaces:
  "splitSentences ''a  b.'' = [''a  b.'']
   \<and> read_words ''a  b.'' = [''a'', ''b.'']
   \<and> list_all (plain_word (Vocabulary_new A1)) [''a'', ''b.'']
   \<and> simplified (run (Simplifier_new A1) ''a  b.'') = ''A b. ''
   \<and> rejoin (splitSentences ''a  b.'') = ''A  b. ''"
proof -
  have s: "splitSentences ''a  b.'' = [''a  b.'']"
    by (simp add: splitSentences_def isTerminator_def Let_def)
  have w: "read_words ''a  b.'' = [''a'', ''b.'']"
    by (simp add: read_words.simps stream_extract_def isspace_def)
  have w'': "read_words ''a b.'' = [''a'', ''b.'']"
    by (simp add: read_words.simps stream_extract_def isspace_def)
  have p: "strip_punct ''a'' [] = (''a'', [])" "strip_punct ''b.'' [] = (''b'', ''.'')"
    by (simp_all add: strip_punct.simps ispunct_def)
  have l: "lowercase ''a'' = ''a''" "lowercase ''b'' = ''b''"
    by (simp_all add: lowercase_def tolower_def upper_letters_def lower_letters_def)
  have v: "loadA1 ''a'' = None" "loadA1 ''b'' = None"
    by (simp_all add: loadA1_def)
  have pl: "list_all (plain_word (Vocabulary_new A1)) [''a'', ''b.'']"
    by (simp add: plain_word_def p l v Vocabulary_new_def)
  have sw: "swapWords (SentenceRewriter_new A1 (Vocabulary_new A1)) ''a  b.'' = ''a b.''"
    by (simp add: swapWords_def SentenceRewriter_new_def w p getSimplerWord_def l v
        Vocabulary_new_def)
  have rw: "rewrite (SentenceRewriter_new A1 (Vocabulary_new A1)) ''a  b.'' = [''a b.'']"
    by (simp add: rewrite_def stripParens_def fixPassive_def sw trySplit_def w'' split_limit_def
        rewriter_lvl_new)
  have r: "simplified (run (Simplifier_new A1) ''a  b.'') = ''A b. ''"
    by (simp add: run_def s Simplifier_new_def rw rejoin_def rejoin_part_def toupper_def
        upper_letters_def lower_letters_def)
  have j: "rejoin (splitSentences ''a  b.'') = ''A  b. ''"
    by (simp add: s rejoin_def rejoin_part_def toupper_def upper_letters_def lower_letters_def)
  from s w pl r j show ?thesis by simp
qed

lemma run_example_simple:
  "splitSentences ''The cat sat. The dog ran.'' = [''The cat sat.'', '' The dog ran.'']
   \<and> list_all (simple_sentence (rewriter (Simplifier_new A1))) [''The cat sat.'', '' The dog ran.'']
   \<and> list_all (\<lambda>s. read_words s \<noteq> [] \<and> \<not> has_paren_span s \<and> single_spaced s)
         [''The cat sat.'', '' The dog ran.'']
   \<and> rejoin [''The cat sat.'', '' The dog ran.''] = ''The cat sat. The dog ran. ''"
proof -
  have s: "splitSentences ''The cat sat. The dog ran.'' = [''The cat sat.'', '' The dog ran.'']"
    by (simp add: splitSentences_def isTerminator_def Let_def)
  have w: "read_words ''The cat sat.'' = [''The'', ''cat'', ''sat.'']"
    "read_words '' The dog ran.'' = [''The'', ''dog'', ''ran.'']"
    by (simp_all add: read_words.simps stream_extract_def isspace_def)
  have p: "strip_punct ''The'' [] = (''The'', [])" "strip_punct ''cat'' [] = (''cat'', [])"
    "strip_punct ''sat.'' [] = (''sat'', ''.'')" "strip_punct ''dog'' [] = (''dog'', [])"
    "strip_punct ''ran.'' [] = (''ran'', ''.'')"
    by (simp_all add: strip_punct.simps ispunct_def)
  have l: "lowercase ''The'' = ''the''" "lowercase ''cat'' = ''cat''" "lowercase ''sat'' = ''sat''"
    "lowercase ''dog'' = ''dog''" "lowercase ''ran'' = ''ran''"
    by (simp_all add: lowercase_def tolower_def upper_letters_def lower_letters_def)
  have v: "loadA1 ''the'' = None" "loadA1 ''cat'' = None" "loadA1 ''sat'' = None"
    "loadA1 ''dog'' = None" "loadA1 ''ran'' = None"
    by (simp_all add: loadA1_def)
  have n: "\<not> has_paren_span ''The cat sat.''" "\<not> has_paren_span '' The dog ran.''"
    by simp_all
  have si: "list_all (simple_sentence (rewriter (Simplifier_new A1))) [''The cat sat.'', '' The dog ran.'']"
    by (simp add: simple_sentence_def rewriter_Simplifier_new rewriter_lvl_new vocab_new
        stripParens_none n w plain_word_def p l v Vocabulary_new_def split_limit_def)
  have ss: "single_spaced ''The cat sat.''" "single_spaced '' The dog ran.''"
    by (simp_all add: single_spaced_def w blank_def)
  have j: "rejoin [''The cat sat.'', '' The dog ran.''] = ''The cat sat. The dog ran. ''"
    by (simp add: rejoin_def rejoin_part_def toupper_def upper_letters_def lower_letters_def)
  from s si n ss j w show ?thesis by simp
qed

lemma run_example_newline:
  "splitSentences ''Hi.\<newline>'' = [''Hi.'', ''\<newline>'']
   \<and> read_words ''Hi.\<newline>'' = [''Hi.'']
   \<and> list_all (plain_word (Vocabulary_new A1)) [''Hi.'']
   \<and> list_all (simple_sentence (rewriter (Simplifier_new A1))) [''Hi.'', ''\<newline>'']
   \<and> filter (\<lambda>s. read_words s \<noteq> []) [''Hi.'', ''\<newline>''] = [''Hi.'']
   \<and> list_all (\<lambda>s. \<not> has_paren_span s \<and> single_spaced s) [''Hi.'']
   \<and> simplified (run (Simplifier_new A1) ''Hi.\<newline>'') = ''Hi. ''
   \<and> rejoin [''Hi.''] = ''Hi. ''
   \<and> rejoin [''Hi.'', ''\<newline>''] = ''Hi. \<newline>. ''"
proof -
  have s: "splitSentences ''Hi.\<newline>'' = [''Hi.'', ''\<newline>'']"
    by (simp add: splitSentences_def isTerminator_def Let_def)
  have w: "read_words ''Hi.\<newline>'' = [''Hi.'']" "read_words ''Hi.'' = [''Hi.'']"
    "read_words ''\<newline>'' = []" "read_words [] = []"
    by (simp_all add: read_words.simps stream_extract_def isspace_def)
  have p: "strip_punct ''Hi.'' [] = (''Hi'', ''.'')"
    by (simp add: strip_punct.simps ispunct_def)
  have l: "lowercase ''Hi'' = ''hi''"
    by (simp add: lowercase_def tolower_def upper_letters_def lower_letters_def)
  have v: "loadA1 ''hi'' = None"
    by (simp add: loadA1_def)
  have pl: "list_all (plain_word (Vocabulary_new A1)) [''Hi.'']"
    by (simp add: plain_word_def p l v Vocabulary_new_def)
  have n: "\<not> has_paren_span ''Hi.''" "\<not> has_paren_span ''\<newline>''"
    by simp_all
  have si: "list_all (simple_sentence (rewriter (Simplifier_new A1))) [''Hi.'', ''\<newline>'']"
    by (simp add: simple_sentence_def rewriter_Simplifier_new rewriter_lvl_new vocab_new
        stripParens_none n w plain_word_def p l v Vocabulary_new_def split_limit_def)
  have f: "filter (\<lambda>s. read_words s \<noteq> []) [''Hi.'', ''\<newline>''] = [''Hi.'']"
    by (simp add: w)
  have ss: "single_spaced ''Hi.''"
    by (simp add: single_spaced_def w blank_def)
  have sw: "swapWords (SentenceRewriter_new A1 (Vocabulary_new A1)) ''Hi.'' = ''Hi.''"
    "swapWords (SentenceRewriter_new A1 (Vocabulary_new A1)) ''\<newline>'' = []"
    by (simp_all add: swapWords_def SentenceRewriter_new_def w p getSimplerWord_def l v
        Vocabulary_new_def)
  have rw: "rewrite (SentenceRewriter_new A1 (Vocabulary_new A1)) ''Hi.'' = [''Hi.'']"
    "rewrite (SentenceRewriter_new A1 (Vocabulary_new A1)) ''\<newline>'' = [[]]"
    by (simp_all add: rewrite_def stripParens_def fixPassive_def sw trySplit_def w split_limit_def
        rewriter_lvl_new)
  have r: "simplified (run (Simplifier_new A1) ''Hi.\<newline>'') = ''Hi. ''"
    by (simp add: run_def s Simplifier_new_def rw rejoin_def rejoin_part_def toupper_def
        upper_letters_def lower_letters_def)
  have j: "rejoin [''Hi.''] = ''Hi. ''" "rejoin [''Hi.'', ''\<newline>''] = ''Hi. \<newline>. ''"
    by (simp_all add: rejoin_def rejoin_part_def toupper_def upper_letters_def lower_letters_def)
  from s w(1) pl si f n(1) ss r j show ?thesis by simp
qed

text \<open>
  Claim C8, as the code has it. Take a text whose sentences, once their parenthesised spans
  are removed, hold no word that (without its trailing punctuation, in lower case) is a key
  of the beginner table, and have at most 10 words each. Then the simplified text of
  \<open>run\<close> at the beginner level is \<open>rejoin\<close> of the sentences with their parenthesised spans
  removed and their words joined again by single spaces. When, besides, no sentence that
  holds a word has a parenthesised span and each of them has its words separated by single
  spaces, after leading spaces, tabs and newlines at most and with nothing behind the last
  word, it is \<open>rejoin\<close> of the sentences that hold a word; so it is \<open>rejoin\<close> of the sentences
  themselves when, on top of that, every sentence holds a word.
\<close>

theorem run_simple_text:
  "(list_all (simple_sentence (rewriter (Simplifier_new A1))) (splitSentences text) \<longrightarrow>
      simplified (run (Simplifier_new A1) text)
      = rejoin (map (\<lambda>s. join_words (read_words (remove_paren_spans s))) (splitSentences text)))
   \<and> (list_all (simple_sentence (rewriter (Simplifier_new A1))) (splitSentences text)
        \<and> list_all (\<lambda>s. \<not> has_paren_span s \<and> single_spaced s)
             (filter (\<lambda>s. read_words s \<noteq> []) (splitSentences text)) \<longrightarrow>
      simplified (run (Simplifier_new A1) text)
      = rejoin (filter (\<lambda>s. read_words s \<noteq> []) (splitSentences text)))
   \<and> (list_all (simple_sentence (rewriter (Simplifier_new A1))) (splitSentences text)
        \<and> list_all (\<lambda>s. read_words s \<noteq> [] \<and> \<not> has_paren_span s \<and> single_spaced s)
             (splitSentences text) \<longrightarrow>
      simplified (run (Simplifier_new A1) text) = rejoin (splitSentences text))"
proof -
  have "stripParens (rewriter (Simplifier_new A1)) = remove_paren_spans"
    by (simp add: fun_eq_iff stripParens_def rewriter_Simplifier_new rewriter_lvl_new)
  then show ?thesis
    using run_simple [of "Simplifier_new A1" "text"] run_simple_worded [of "Simplifier_new A1" "text"]
      run_simple_single_spaced [of "Simplifier_new A1" "text"]
    by simp
qed

theorem run_simple_text_witness:
  "list_all (simple_sentence (rewriter (Simplifier_new A1))) (splitSentences ''The cat sat. The dog ran.'')
   \<and> list_all (\<lambda>s. read_words s \<noteq> [] \<and> \<not> has_paren_span s \<and> single_spaced s)
        (splitSentences ''The cat sat. The dog ran.'')
   \<and> simplified (run (Simplifier_new A1) ''The cat sat. The dog ran.'') = ''The cat sat. The dog ran. ''
   \<and> list_all (simple_sentence (rewriter (Simplifier_new A1))) (splitSentences ''Hi.\<newline>'')
   \<and> list_all (\<lambda>s. \<not> has_paren_span s \<and> single_spaced s)
        (filter (\<lambda>s. read_words s \<noteq> []) (splitSentences ''Hi.\<newline>''))
   \<and> rejoin (filter (\<lambda>s. read_words s \<noteq> []) (splitSentences ''Hi.\<newline>'')) = ''Hi. ''"
proof -
  from run_example_simple
  have s: "splitSentences ''The cat sat. The dog ran.'' = [''The cat sat.'', '' The dog ran.'']"
    and h1: "list_all (simple_sentence (rewriter (Simplifier_new A1))) [''The cat sat.'', '' The dog ran.'']"
    and h2: "list_all (\<lambda>s. read_words s \<noteq> [] \<and> \<not> has_paren_span s \<and> single_spaced s)
               [''The cat sat.'', '' The dog ran.'']"
    and j: "rejoin [''The cat sat.'', '' The dog ran.''] = ''The cat sat. The dog ran. ''"
    by blast+
  from run_example_newline
  have s': "splitSentences ''Hi.\<newline>'' = [''Hi.'', ''\<newline>'']"
    and h1': "list_all (simple_sentence (rewriter (Simplifier_new A1))) [''Hi.'', ''\<newline>'']"
    and f': "filter (\<lambda>s. read_words s \<noteq> []) [''Hi.'', ''\<newline>''] = [''Hi.'']"
    and h2': "list_all (\<lambda>s. \<not> has_paren_span s \<and> single_spaced s) [''Hi.'']"
    and r': "simplified (run (Simplifier_new A1) ''Hi.\<newline>'') = ''Hi. ''"
    by blast+
  have a: "simplified (run (Simplifier_new A1) ''The cat sat. The dog ran.'')
        = rejoin (splitSentences ''The cat sat. The dog ran.'')"
    using run_simple_text [of "''The cat sat. The dog ran.''"] h1 h2 unfolding s by blast
  have b: "simplified (run (Simplifier_new A1) ''Hi.\<newline>'')
        = rejoin (filter (\<lambda>s. read_words s \<noteq> []) (splitSentences ''Hi.\<newline>''))"
    using run_simple_text [of "''Hi.\<newline>''"] h1' h2' unfolding s' f' by blast
  from a have "simplified (run (Simplifier_new A1) ''The cat sat. The dog ran.'') = ''The cat sat. The dog ran. ''"
    unfolding s j .
  moreover from b have "rejoin (filter (\<lambda>s. read_words s \<noteq> []) (splitSentences ''Hi.\<newline>'')) = ''Hi. ''"
    unfolding r' by simp
  ultimately show ?thesis
    using h1 h2 h1' h2' unfolding s s' f' by simp
qed

text \<open>
  The claim as the specification words it fails where a sentence has a parenthesised span,
  which the beginner level removes, where words are separated by more than one space, which
  \<open>swapWords\<close> reduces to one, and where a sentence holds no word, which \<open>run\<close> leaves out: no
  word of the three texts is a key of the table and each has fewer than ten words, yet the
  simplified text is not the reassembly of the sentences.
\<close>

theorem run_simple_text_counterexample:
  "list_all (plain_word (Vocabulary_new A1)) (read_words ''Go (now) on.'')
   \<and> length (read_words ''Go (now) on.'') = 3
   \<and> simplified (run (Simplifier_new A1) ''Go (now) on.'') = ''Go on. ''
   \<and> rejoin (splitSentences ''Go (now) on.'') = ''Go (now) on. ''
   \<and> simplified (run (Simplifier_new A1) ''Go (now) on.'') \<noteq> rejoin (splitSentences ''Go (now) on.'')
   \<and> list_all (plain_word (Vocabulary_new A1)) (read_words ''a  b.'')
   \<and> length (read_words ''a  b.'') = 2
   \<and> simplified (run (Simplifier_new A1) ''a  b.'') = ''A b. ''
   \<and> rejoin (splitSentences ''a  b.'') = ''A  b. ''
   \<and> simplified (run (Simplifier_new A1) ''a  b.'') \<noteq> rejoin (splitSentences ''a  b.'')
   \<and> list_all (plain_word (Vocabulary_new A1)) (read_words ''Hi.\<newline>'')
   \<and> length (read_words ''Hi.\<newline>'') = 1
   \<and> simplified (run (Simplifier_new A1) ''Hi.\<newline>'') = ''Hi. ''
   \<and> rejoin (splitSentences ''Hi.\<newline>'') = ''Hi. \<newline>. ''
   \<and> simplified (run (Simplifier_new A1) ''Hi.\<newline>'') \<noteq> rejoin (splitSentences ''Hi.\<newline>'')"
proof -
  from run_example_parens
  have p: "read_words ''Go (now) on.'' = [''Go'', ''(now)'', ''on.'']"
    "list_all (plain_word (Vocabulary_new A1)) [''Go'', ''(now)'', ''on.'']"
    "simplified (run (Simplifier_new A1) ''Go (now) on.'') = ''Go on. ''"
    "rejoin (splitSentences ''Go (now) on.'') = ''Go (now) on. ''"
    by blast+
  from run_example_spaces
  have q: "read_words ''a  b.'' = [''a'', ''b.'']"
    "list_all (plain_word (Vocabulary_new A1)) [''a'', ''b.'']"
    "simplified (run (Simplifier_new A1) ''a  b.'') = ''A b. ''"
    "rejoin (splitSentences ''a  b.'') = ''A  b. ''"
    by blast+
  from run_example_newline
  have n: "read_words ''Hi.\<newline>'' = [''Hi.'']"
    "list_all (plain_word (Vocabulary_new A1)) [''Hi.'']"
    "simplified (run (Simplifier_new A1) ''Hi.\<newline>'') = ''Hi. ''"
    "splitSentences ''Hi.\<newline>'' = [''Hi.'', ''\<newline>'']"
    "rejoin [''Hi.'', ''\<newline>''] = ''Hi. \<newline>. ''"
    by blast+
  show ?thesis
    using p(2) q(2) n(2) unfolding p(1,3,4) q(1,3,4) n(1,3,4,5) by simp
qed

end
